theory Spec2Isabelle
  imports Main "HOL-Library.Word" "HOL-Library.Char_ord" "HOL-Library.List_Lexorder"
begin

section \<open>Preview generation for a media library: the per-item engine\<close>

text \<open>
  A shallow embedding of \<^verbatim>\<open>src/plex/generator.py\<close>: the accelerator admission test and
  the frame renaming of \<^verbatim>\<open>generate_images\<close>, the binary encoder \<^verbatim>\<open>generate_bif\<close>, and
  the body of the loop of \<^verbatim>\<open>process_item\<close>. Python integers are \<open>int\<close>, file names are
  \<open>string\<close> (ASCII names, compared by character code as Python compares \<^verbatim>\<open>str\<close>), file
  contents are lists of bytes, and every exception the modelled code can raise is a value
  of the type \<open>error\<close>.

  The collaborators outside the program (the transcoder, the accelerator query, the
  permissions of the target) enter as the record \<open>job_env\<close>. Outside the model are the
  exceptions those collaborators and the metrics database could raise themselves, the two
  float columns of a metric, directory entries that are not regular files, and the
  remapping of path prefixes, which is the identity under the default empty mappings.
\<close>

subsection \<open>Data\<close>

type_synonym byte = "8 word"

datatype error =
    ZeroDivisionError
  | ValueError
  | IndexError
  | AttributeError
  | StructError
  | PermissionError
  | FileNotFoundError

text \<open>The options of \<^verbatim>\<open>settings.py\<close> that the engine reads.\<close>

record settings =
  PLEX_BIF_FRAME_INTERVAL :: int
  GPU_THREADS :: int
  CPU_THREADS :: int
  PLEX_LOCAL_MEDIA_PATH :: string
  TMP_FOLDER :: string

text \<open>A directory is the list of its entries, each a regular file: name and content.\<close>

type_synonym dir = "(string \<times> byte list) list"

text \<open>
  One row of the metrics table. The two float columns (elapsed seconds and encode speed)
  are telemetry that no decision of the engine reads; they are left out.
\<close>

record metric =
  video_file :: string
  hw_accel :: bool

text \<open>
  The part of the machine that a job reads and writes: regular files by path, the listing
  of each temporary directory by path, the rows of the metrics table, and the list of
  video files for which the external transcoder has been started.
\<close>

record world =
  files :: "string \<rightharpoonup> byte list"
  dirs :: "string \<rightharpoonup> dir"
  metrics :: "metric list"
  transcoder_runs :: "string list"

text \<open>
  What the collaborators outside the program do during one job: the processes the
  accelerator lists (each by its command name), the exit status of the transcoder, the
  frames it has written by then (frame \<open>k\<close>, counted from 1, to \<^verbatim>\<open>img-%06d.jpg\<close>),
  whether the target file can be opened for writing, and the existing directories that
  match the path of the output folder when that path is read as a glob pattern (consulted
  only when the path holds a glob metacharacter).
\<close>

record job_env =
  gpu_processes :: "string list"
  returncode :: int
  frames :: "byte list list"
  target_writable :: bool
  glob_dirs :: "string list"

text \<open>The attributes of a \<^verbatim>\<open>MediaPart\<close> element; \<open>part_file\<close> is the path after remapping.\<close>

record media_part =
  part_hash :: "string option"
  part_file :: string

text \<open>
  The exit taken by one pass through the loop body of \<^verbatim>\<open>process_item\<close>: a \<^verbatim>\<open>continue\<close>
  before any work or an existing target (\<open>Skipped\<close>), the handler of the extraction
  \<^verbatim>\<open>try\<close>, the handler of the encoding \<^verbatim>\<open>try\<close>, or the end of the body.
\<close>

datatype outcome = Skipped | ExtractionFailed error | EncodeFailed error | Done

subsection \<open>Strings: \<^verbatim>\<open>str.strip\<close>, \<^verbatim>\<open>int\<close>, \<^verbatim>\<open>%06d\<close> and \<^verbatim>\<open>:010d\<close>\<close>

definition py_strip :: "string \<Rightarrow> string \<Rightarrow> string" where
  "py_strip chars s =
     rev (dropWhile (\<lambda>c. c \<in> set chars) (rev (dropWhile (\<lambda>c. c \<in> set chars) s)))"

definition endswith :: "string \<Rightarrow> string \<Rightarrow> bool" where
  "endswith s suffix =
     (length suffix \<le> length s \<and> drop (length s - length suffix) s = suffix)"

definition startswith :: "string \<Rightarrow> string \<Rightarrow> bool" where
  "startswith s pre = (take (length pre) s = pre)"

text \<open>\<^verbatim>\<open>str.lower\<close> on ASCII.\<close>

definition py_lower :: "string \<Rightarrow> string" where
  "py_lower s =
     map (\<lambda>c. case map_of (zip ''ABCDEFGHIJKLMNOPQRSTUVWXYZ'' ''abcdefghijklmnopqrstuvwxyz'') c of
                None \<Rightarrow> c
              | Some l \<Rightarrow> l) s"

definition is_digit :: "char \<Rightarrow> bool" where
  "is_digit c = (c \<in> set ''0123456789'')"

definition digit_val :: "char \<Rightarrow> nat" where
  "digit_val c = of_char c - 48"

definition digit_char :: "nat \<Rightarrow> char" where
  "digit_char d = ''0123456789'' ! d"

definition dec_val :: "string \<Rightarrow> nat" where
  "dec_val s = foldl (\<lambda>acc c. 10 * acc + digit_val c) 0 s"

text \<open>Digits, with single underscores allowed between them, as \<^verbatim>\<open>int()\<close> accepts.\<close>

fun digits_ok :: "string \<Rightarrow> bool" where
  "digits_ok [] = False"
| "digits_ok [c] = is_digit c"
| "digits_ok (c # d # s) =
     (is_digit c \<and> (if d = CHR ''_'' then digits_ok s else digits_ok (d # s)))"

definition py_space :: "char \<Rightarrow> bool" where
  "py_space c = (of_char c \<in> {9, 10, 11, 12, 13, 28, 29, 30, 31, 32 :: nat})"

text \<open>
  \<^verbatim>\<open>int(s)\<close> on an ASCII string: surrounding whitespace, an optional sign, digits.
  Anything else raises \<^verbatim>\<open>ValueError\<close>.
\<close>

definition py_int :: "string \<Rightarrow> error + int" where
  "py_int s =
     (let t = rev (dropWhile py_space (rev (dropWhile py_space s)));
          neg = (t \<noteq> [] \<and> hd t = CHR ''-'');
          u = (if t \<noteq> [] \<and> (hd t = CHR ''-'' \<or> hd t = CHR ''+'') then tl t else t)
      in if digits_ok u
         then Inr ((if neg then - 1 else 1) * int (dec_val (filter (\<lambda>c. c \<noteq> CHR ''_'') u)))
         else Inl ValueError)"

fun dec :: "nat \<Rightarrow> string" where
  "dec n = (if n < 10 then [digit_char n] else dec (n div 10) @ [digit_char (n mod 10)])"

declare dec.simps [simp del]

definition zfill :: "nat \<Rightarrow> string \<Rightarrow> string" where
  "zfill w s = replicate (w - length s) (CHR ''0'') @ s"

text \<open>The transcoder's output pattern \<^verbatim>\<open>img-%06d.jpg\<close> at ordinal \<open>k\<close>.\<close>

definition img_name :: "nat \<Rightarrow> string" where
  "img_name k = ''img-'' @ zfill 6 (dec k) @ ''.jpg''"

text \<open>\<^verbatim>\<open>f'{n:010d}'\<close>: at least ten characters, the sign first, zeros after it.\<close>

definition fmt_010d :: "int \<Rightarrow> string" where
  "fmt_010d n =
     (if n < 0 then CHR ''-'' # zfill 9 (dec (nat (- n))) else zfill 10 (dec (nat n)))"

subsection \<open>\<^verbatim>\<open>struct.pack("<I", v)\<close> and its reader\<close>

fun le_bytes :: "nat \<Rightarrow> int \<Rightarrow> byte list" where
  "le_bytes 0 v = []"
| "le_bytes (Suc n) v = word_of_int v # le_bytes n (v div 256)"

definition pack_I :: "int \<Rightarrow> error + byte list" where
  "pack_I v = (if 0 \<le> v \<and> v < 2 ^ 32 then Inr (le_bytes 4 v) else Inl StructError)"

text \<open>
  The reader a consumer of the artifact applies (\<^verbatim>\<open>struct.unpack("<I", ...)\<close> at a byte
  position); the claims about fields of the artifact are stated through it.
\<close>

fun le_value :: "byte list \<Rightarrow> int" where
  "le_value [] = 0"
| "le_value (b # bs) = uint b + 256 * le_value bs"

definition read_u32 :: "byte list \<Rightarrow> nat \<Rightarrow> int" where
  "read_u32 bs pos = le_value (take 4 (drop pos bs))"

subsection \<open>The artifact encoder: \<^verbatim>\<open>generate_bif\<close>\<close>

definition bif_magic :: "byte list" where
  "bif_magic = [0x89, 0x42, 0x49, 0x46, 0x0d, 0x0a, 0x1a, 0x0a]"

text \<open>
  A write into the open file: the value is packed first, so a value that does not fit
  raises before anything of it is written, and what was written before stays.
\<close>

definition write_I :: "int \<Rightarrow> byte list \<Rightarrow> (error + unit) \<times> byte list" where
  "write_I v f = (case pack_I v of Inl e \<Rightarrow> (Inl e, f) | Inr b \<Rightarrow> (Inr (), f @ b))"

definition and_then ::
  "(byte list \<Rightarrow> (error + 'a) \<times> byte list) \<Rightarrow> ('a \<Rightarrow> byte list \<Rightarrow> (error + 'b) \<times> byte list)
     \<Rightarrow> byte list \<Rightarrow> (error + 'b) \<times> byte list" where
  "and_then m k f = (case m f of (Inl e, f') \<Rightarrow> (Inl e, f') | (Inr a, f') \<Rightarrow> k a f')"

text \<open>The first loop over \<open>images\<close>: one index entry each; returns the final \<open>image_index\<close>.\<close>

fun write_index :: "dir \<Rightarrow> int \<Rightarrow> int \<Rightarrow> byte list \<Rightarrow> (error + int) \<times> byte list" where
  "write_index [] timestamp image_index f = (Inr image_index, f)"
| "write_index (img # images) timestamp image_index f =
     and_then (write_I timestamp) (\<lambda>_.
     and_then (write_I image_index) (\<lambda>_.
       write_index images (timestamp + 1) (image_index + int (length (snd img))))) f"

text \<open>The body of the \<^verbatim>\<open>with open(bif_filename, "wb")\<close> block, from the empty file.\<close>

definition write_bif :: "int \<Rightarrow> dir \<Rightarrow> (error + unit) \<times> byte list" where
  "write_bif interval images =
     (let version = 0;
          bif_table_size = 8 + 8 * int (length images);
          image_index = 64 + bif_table_size
      in and_then (\<lambda>f. (Inr (), f @ bif_magic)) (\<lambda>_.
         and_then (write_I version) (\<lambda>_.
         and_then (write_I (int (length images))) (\<lambda>_.
         and_then (write_I (1000 * interval)) (\<lambda>_.
         and_then (\<lambda>f. (Inr (), f @ replicate 56 0)) (\<lambda>_.
         and_then (write_index images 0 image_index) (\<lambda>image_index'.
         and_then (write_I 0xffffffff) (\<lambda>_.
         and_then (write_I image_index') (\<lambda>_.
           (\<lambda>f. (Inr (), f @ concat (map snd images))))))))))) [])"

text \<open>\<^verbatim>\<open>sorted([img for img in os.listdir(images_path) if img.endswith('.jpg')])\<close>\<close>

definition bif_images :: "dir \<Rightarrow> dir" where
  "bif_images d = sort_key fst (filter (\<lambda>e. endswith (fst e) ''.jpg'') d)"

text \<open>
  \<^verbatim>\<open>generate_bif\<close> on the listing of \<open>images_path\<close>: the result, and the content of
  \<open>bif_filename\<close> afterwards (\<open>None\<close> when the file could not be opened, so was not
  created).
\<close>

definition generate_bif :: "settings \<Rightarrow> bool \<Rightarrow> dir \<Rightarrow> (error + unit) \<times> byte list option" where
  "generate_bif st writable d =
     (let images = bif_images d
      in if \<not> writable then (Inl PermissionError, None)
         else (case write_bif (PLEX_BIF_FRAME_INTERVAL st) images of
                 (r, bs) \<Rightarrow> (r, Some bs)))"

text \<open>
  The layout that \<^verbatim>\<open>generate_bif\<close> produces when every packed value fits, written
  as a value: the bytes before the index table, the index table with its closing entry,
  and the frames. \<open>bif_fits\<close> is the condition under which no \<^verbatim>\<open>struct.pack\<close> raises.
\<close>

primrec index_bytes :: "int \<Rightarrow> int \<Rightarrow> dir \<Rightarrow> byte list" where
  "index_bytes t i [] = []"
| "index_bytes t i (img # images) =
     le_bytes 4 t @ le_bytes 4 i @ index_bytes (t + 1) (i + int (length (snd img))) images"

definition payload_size :: "dir \<Rightarrow> int" where
  "payload_size images = int (length (concat (map snd images)))"

definition bif_header :: "int \<Rightarrow> nat \<Rightarrow> byte list" where
  "bif_header interval n =
     bif_magic @ le_bytes 4 0 @ le_bytes 4 (int n) @ le_bytes 4 (1000 * interval) @ replicate 56 0"

definition bif_table :: "dir \<Rightarrow> byte list" where
  "bif_table images =
     index_bytes 0 (72 + 8 * int (length images)) images @
     le_bytes 4 0xffffffff @ le_bytes 4 (72 + 8 * int (length images) + payload_size images)"

definition bif_layout :: "int \<Rightarrow> dir \<Rightarrow> byte list" where
  "bif_layout interval images =
     bif_header interval (length images) @ bif_table images @ concat (map snd images)"

definition bif_fits :: "int \<Rightarrow> dir \<Rightarrow> bool" where
  "bif_fits interval images =
     (0 \<le> 1000 * interval \<and> 1000 * interval < 2 ^ 32 \<and>
      72 + 8 * int (length images) + payload_size images < 2 ^ 32)"

subsection \<open>Frame extraction and renaming: \<^verbatim>\<open>generate_images\<close>\<close>

text \<open>
  The count of the NVIDIA branch,
  \<^verbatim>\<open>sum(1 for gpu_stat in gpu_stats for process in gpu_stat.processes
      if 'ffmpeg' in process.command.lower())\<close>:
  the entries gpustat lists are dictionaries, so the attribute access on the first entry
  raises, and only an empty listing is counted.
\<close>

fun nvidia_ffmpeg_count :: "string list \<Rightarrow> error + nat" where
  "nvidia_ffmpeg_count [] = Inr 0"
| "nvidia_ffmpeg_count (process # processes) = Inl AttributeError"

text \<open>
  The count of the AMD branch, \<^verbatim>\<open>len(self.get_amd_ffmpeg_processes())\<close>: the entries
  whose \<^verbatim>\<open>process['name'].lower()\<close> starts with \<^verbatim>\<open>ffmpeg\<close>.
\<close>

definition amd_ffmpeg_count :: "string list \<Rightarrow> nat" where
  "amd_ffmpeg_count processes =
     length (filter (\<lambda>name. startswith (py_lower name) ''ffmpeg'') processes)"

text \<open>
  The two accelerator branches of \<^verbatim>\<open>generate_images\<close> and the flag \<^verbatim>\<open>hw_accel_used\<close>
  they set. \<open>gpu\<close> is what \<^verbatim>\<open>detect_gpu\<close> returned: \<^verbatim>\<open>'NVIDIA'\<close>, the path of a render
  device, or \<^verbatim>\<open>None\<close>.
\<close>

definition hw_accel_used :: "settings \<Rightarrow> string option \<Rightarrow> string list \<Rightarrow> error + bool" where
  "hw_accel_used st gpu processes =
     (if gpu = Some ''NVIDIA''
      then (case nvidia_ffmpeg_count processes of
              Inl e \<Rightarrow> Inl e
            | Inr ffmpeg_count \<Rightarrow>
                Inr (int ffmpeg_count < GPU_THREADS st \<or> CPU_THREADS st = 0))
      else if gpu \<noteq> None \<and> gpu \<noteq> Some []
      then Inr (int (amd_ffmpeg_count processes) < GPU_THREADS st \<or> CPU_THREADS st = 0)
      else Inr False)"

text \<open>
  \<^verbatim>\<open>glob.glob(f'{output_folder}/img*.jpg')\<close>. The names selected in one directory are
  those that match \<^verbatim>\<open>img*.jpg\<close>. The directories searched are the output folder itself
  when its path has none of the metacharacters \<^verbatim>\<open>*\<close>, \<^verbatim>\<open>?\<close> and \<^verbatim>\<open>[\<close>, and otherwise
  the directories that match the path as a pattern. A path that is no directory of the
  machine lists nothing.
\<close>

definition glob_img :: "string \<Rightarrow> bool" where
  "glob_img name = (7 \<le> length name \<and> startswith name ''img'' \<and> endswith name ''.jpg'')"

definition has_magic :: "string \<Rightarrow> bool" where
  "has_magic path = list_ex (\<lambda>c. c \<in> set ''*?['') path"

definition glob_images :: "string \<Rightarrow> job_env \<Rightarrow> world \<Rightarrow> (string \<times> string) list" where
  "glob_images output_folder env w =
     concat (map (\<lambda>dirname.
                   case dirs w dirname of
                     None \<Rightarrow> []
                   | Some d \<Rightarrow> map (\<lambda>name. (dirname, name)) (filter glob_img (map fst d)))
                 (if has_magic output_folder then glob_dirs env else [output_folder]))"

text \<open>\<^verbatim>\<open>int(os.path.basename(image).strip('img-').strip('.jpg')) - 1\<close>\<close>

definition frame_no :: "string \<Rightarrow> error + int" where
  "frame_no name =
     (case py_int (py_strip ''.jpg'' (py_strip ''img-'' name)) of
        Inl e \<Rightarrow> Inl e
      | Inr n \<Rightarrow> Inr (n - 1))"

definition frame_second :: "int \<Rightarrow> string \<Rightarrow> error + int" where
  "frame_second interval name =
     (case frame_no name of Inl e \<Rightarrow> Inl e | Inr n \<Rightarrow> Inr (n * interval))"

definition new_name :: "int \<Rightarrow> string \<Rightarrow> error + string" where
  "new_name interval name =
     (case frame_second interval name of
        Inl e \<Rightarrow> Inl e
      | Inr s \<Rightarrow> Inr (fmt_010d s @ ''.jpg''))"

definition write_file :: "string \<Rightarrow> byte list \<Rightarrow> dir \<Rightarrow> dir" where
  "write_file name content d = filter (\<lambda>e. fst e \<noteq> name) d @ [(name, content)]"

text \<open>
  \<^verbatim>\<open>os.rename\<close> of a file, given as directory and name, to a name in a directory: as on
  POSIX the destination is replaced if it exists, and nothing changes when the call fails.
\<close>

definition os_rename :: "string \<times> string \<Rightarrow> string \<times> string \<Rightarrow> world \<Rightarrow> error + world" where
  "os_rename src dst w =
     (case dirs w (fst src) of
        None \<Rightarrow> Inl FileNotFoundError
      | Some d \<Rightarrow>
          (case map_of d (snd src) of
             None \<Rightarrow> Inl FileNotFoundError
           | Some content \<Rightarrow>
               let w1 = w\<lparr>dirs := (dirs w)(fst src \<mapsto> filter (\<lambda>e. fst e \<noteq> snd src) d)\<rparr>
               in (case dirs w1 (fst dst) of
                     None \<Rightarrow> Inl FileNotFoundError
                   | Some d2 \<Rightarrow>
                       Inr (w1\<lparr>dirs := (dirs w1)(fst dst \<mapsto> write_file (snd dst) content d2)\<rparr>))))"

text \<open>The loop over the paths glob returned.\<close>

fun rename_images :: "int \<Rightarrow> string \<Rightarrow> (string \<times> string) list \<Rightarrow> world \<Rightarrow> (error + unit) \<times> world" where
  "rename_images interval output_folder [] w = (Inr (), w)"
| "rename_images interval output_folder (img # images) w =
     (case new_name interval (snd img) of
        Inl e \<Rightarrow> (Inl e, w)
      | Inr dst \<Rightarrow>
          (case os_rename img (output_folder, dst) w of
             Inl e \<Rightarrow> (Inl e, w)
           | Inr w' \<Rightarrow> rename_images interval output_folder images w'))"

text \<open>The transcoder writes frame \<open>k\<close>, \<open>k + 1\<close>, ... of its output.\<close>

fun write_frames :: "nat \<Rightarrow> byte list list \<Rightarrow> dir \<Rightarrow> dir" where
  "write_frames k [] d = d"
| "write_frames k (fr # frs) d = write_frames (Suc k) frs (write_file (img_name k) fr d)"

definition run_ffmpeg :: "string \<Rightarrow> string \<Rightarrow> job_env \<Rightarrow> world \<Rightarrow> world" where
  "run_ffmpeg video output_folder env w =
     w\<lparr>transcoder_runs := transcoder_runs w @ [video],
       dirs := (case dirs w output_folder of
                  None \<Rightarrow> dirs w
                | Some d \<Rightarrow> (dirs w)(output_folder \<mapsto> write_frames 1 (frames env) d))\<rparr>"

definition insert_metric :: "string \<Rightarrow> bool \<Rightarrow> world \<Rightarrow> world" where
  "insert_metric video hw w =
     w\<lparr>metrics := metrics w @ [\<lparr>video_file = video, hw_accel = hw\<rparr>]\<rparr>"

text \<open>
  \<^verbatim>\<open>generate_images\<close>: the frame rate \<^verbatim>\<open>1 / PLEX_BIF_FRAME_INTERVAL\<close> is computed first
  and raises on a zero interval; the accelerator branch comes next and may raise; then the
  transcoder runs; a non-zero exit status is logged and the function returns normally;
  otherwise the frames are renamed and one metric is inserted.
\<close>

definition generate_images ::
  "settings \<Rightarrow> string \<Rightarrow> string \<Rightarrow> string option \<Rightarrow> job_env \<Rightarrow> world \<Rightarrow> (error + unit) \<times> world" where
  "generate_images st video output_folder gpu env w =
     (if PLEX_BIF_FRAME_INTERVAL st = 0 then (Inl ZeroDivisionError, w)
      else
        (case hw_accel_used st gpu (gpu_processes env) of
           Inl e \<Rightarrow> (Inl e, w)
         | Inr hw \<Rightarrow>
             let w1 = run_ffmpeg video output_folder env w
             in if returncode env \<noteq> 0 then (Inr (), w1)
                else
                  (case rename_images (PLEX_BIF_FRAME_INTERVAL st) output_folder
                          (glob_images output_folder env w1) w1 of
                     (Inl e, w2) \<Rightarrow> (Inl e, w2)
                   | (Inr u, w2) \<Rightarrow> (Inr (), insert_metric video hw w2))))"

subsection \<open>The job of one media part: the loop body of \<^verbatim>\<open>process_item\<close>\<close>

definition index_bif :: "settings \<Rightarrow> string \<Rightarrow> string" where
  "index_bif st bundle_hash =
     PLEX_LOCAL_MEDIA_PATH st @ ''/localhost/'' @ [hd bundle_hash] @ ''/'' @ tl bundle_hash @
     ''.bundle/Contents/Indexes/index-sd.bif''"

definition tmp_path :: "settings \<Rightarrow> string \<Rightarrow> string" where
  "tmp_path st bundle_hash = TMP_FOLDER st @ ''/'' @ bundle_hash"

text \<open>\<^verbatim>\<open>needle in haystack\<close> on strings.\<close>

fun py_in :: "string \<Rightarrow> string \<Rightarrow> bool" where
  "py_in needle [] = (needle = [])"
| "py_in needle (c # cs) = (startswith (c # cs) needle \<or> py_in needle cs)"

definition makedirs :: "string \<Rightarrow> world \<Rightarrow> world" where
  "makedirs p w = (case dirs w p of None \<Rightarrow> w\<lparr>dirs := (dirs w)(p \<mapsto> [])\<rparr> | Some d \<Rightarrow> w)"

definition rmtree :: "string \<Rightarrow> world \<Rightarrow> world" where
  "rmtree p w = w\<lparr>dirs := (dirs w)(p := None)\<rparr>"

definition os_remove :: "string \<Rightarrow> world \<Rightarrow> world" where
  "os_remove p w = w\<lparr>files := (files w)(p := None)\<rparr>"

text \<open>\<^verbatim>\<open>generate_bif(index_bif, tmp_path)\<close> on the world.\<close>

definition run_generate_bif ::
  "settings \<Rightarrow> string \<Rightarrow> string \<Rightarrow> job_env \<Rightarrow> world \<Rightarrow> (error + unit) \<times> world" where
  "run_generate_bif st bif_filename images_path env w =
     (case dirs w images_path of
        None \<Rightarrow> (Inl FileNotFoundError, w)
      | Some d \<Rightarrow>
          (case generate_bif st (target_writable env) d of
             (r, None) \<Rightarrow> (r, w)
           | (r, Some bs) \<Rightarrow> (r, w\<lparr>files := (files w)(bif_filename \<mapsto> bs)\<rparr>)))"

text \<open>
  One pass through the loop body for a media part, with \<open>argv1\<close> the optional path
  filter of the command line. The directories above the target are not tracked.
\<close>

definition process_media_part ::
  "settings \<Rightarrow> string option \<Rightarrow> string option \<Rightarrow> job_env \<Rightarrow> media_part \<Rightarrow> world
     \<Rightarrow> outcome \<times> world" where
  "process_media_part st argv1 gpu env part w =
     (case part_hash part of
        None \<Rightarrow> (Skipped, w)
      | Some bundle_hash \<Rightarrow>
          if (case argv1 of None \<Rightarrow> False | Some a \<Rightarrow> \<not> py_in a (part_file part))
          then (Skipped, w)
          else if part_file part \<notin> dom (files w) then (Skipped, w)
          else if bundle_hash = [] then (Skipped, w)
          else if index_bif st bundle_hash \<in> dom (files w) then (Skipped, w)
          else
            (case generate_images st (part_file part) (tmp_path st bundle_hash) gpu env
                    (makedirs (tmp_path st bundle_hash) w) of
               (Inl e, w2) \<Rightarrow> (ExtractionFailed e, rmtree (tmp_path st bundle_hash) w2)
             | (Inr u, w2) \<Rightarrow>
                 (case run_generate_bif st (index_bif st bundle_hash) (tmp_path st bundle_hash)
                         env w2 of
                    (Inl e, w3) \<Rightarrow>
                      (EncodeFailed e,
                       rmtree (tmp_path st bundle_hash)
                         (if index_bif st bundle_hash \<in> dom (files w3)
                          then os_remove (index_bif st bundle_hash) w3 else w3))
                  | (Inr u, w3) \<Rightarrow> (Done, rmtree (tmp_path st bundle_hash) w3))))"

text \<open>\<^verbatim>\<open>process_item\<close>: the media parts of one item, one after the other.\<close>

fun process_item ::
  "settings \<Rightarrow> string option \<Rightarrow> string option \<Rightarrow> (media_part \<times> job_env) list \<Rightarrow> world \<Rightarrow> world" where
  "process_item st argv1 gpu [] w = w"
| "process_item st argv1 gpu ((part, env) # parts) w =
     process_item st argv1 gpu parts (snd (process_media_part st argv1 gpu env part w))"

subsection \<open>Fixed-width decimals\<close>

text \<open>The \<open>w\<close> low decimal digits of \<open>n\<close>, most significant first.\<close>

primrec fixed_dec :: "nat \<Rightarrow> nat \<Rightarrow> string" where
  "fixed_dec 0 n = []"
| "fixed_dec (Suc w) n = fixed_dec w (n div 10) @ [digit_char (n mod 10)]"


subsection \<open>The frames in a folder, before and after renaming\<close>

text \<open>
  The entries the transcoder leaves for the frames \<open>frs\<close> numbered from \<open>k\<close>, and the
  entries they are to become: frame \<open>k\<close> under the timestamp \<open>(k - 1) * interval\<close>.
\<close>

primrec frame_files :: "nat \<Rightarrow> byte list list \<Rightarrow> dir" where
  "frame_files k [] = []"
| "frame_files k (fr # frs) = (img_name k, fr) # frame_files (Suc k) frs"

primrec renamed_files :: "int \<Rightarrow> nat \<Rightarrow> byte list list \<Rightarrow> dir" where
  "renamed_files interval k [] = []"
| "renamed_files interval k (fr # frs) =
     (fmt_010d ((int k - 1) * interval) @ ''.jpg'', fr) # renamed_files interval (Suc k) frs"

subsection \<open>Concrete inputs\<close>

text \<open>
  A configuration with the default interval of five seconds, a machine that holds one
  video file and nothing else, a media part for that file, a transcoder that writes two
  frames and exits with status 0, and a frame directory with a file that is not a frame.
\<close>

definition demo_settings :: settings where
  "demo_settings = \<lparr>PLEX_BIF_FRAME_INTERVAL = 5, GPU_THREADS = 4, CPU_THREADS = 4,
     PLEX_LOCAL_MEDIA_PATH = ''/media'', TMP_FOLDER = ''/tmp''\<rparr>"

definition demo_world :: world where
  "demo_world = \<lparr>files = [''/v.mkv'' \<mapsto> []], dirs = Map.empty, metrics = [], transcoder_runs = []\<rparr>"

definition demo_part :: media_part where
  "demo_part = \<lparr>part_hash = Some ''abc'', part_file = ''/v.mkv''\<rparr>"

definition demo_env :: job_env where
  "demo_env = \<lparr>gpu_processes = [], returncode = 0, frames = [[1, 2], [3]],
     target_writable = True, glob_dirs = []\<rparr>"

definition demo_dir :: dir where
  "demo_dir = [(''0000000010.jpg'', [3]), (''notes.txt'', [9]), (''0000000000.jpg'', [1, 2])]"

text \<open>A transcoder that writes no frame and exits with status 1.\<close>

definition failed_env :: job_env where
  "failed_env = \<lparr>gpu_processes = [], returncode = 1, frames = [], target_writable = True,
     glob_dirs = []\<rparr>"

text \<open>The same transcoder while the accelerator lists one transcoder process.\<close>

definition busy_env :: job_env where
  "busy_env = \<lparr>gpu_processes = [''ffmpeg''], returncode = 0, frames = [[1, 2], [3]],
     target_writable = True, glob_dirs = []\<rparr>"

text \<open>The bytes the encoder writes for \<open>demo_dir\<close> at an interval of five seconds.\<close>

definition demo_bif :: "byte list" where
  "demo_bif = bif_magic @ [0, 0, 0, 0] @ [2, 0, 0, 0] @ [0x88, 0x13, 0, 0] @ replicate 56 0 @
     [0, 0, 0, 0, 88, 0, 0, 0] @ [1, 0, 0, 0, 90, 0, 0, 0] @ [0xff, 0xff, 0xff, 0xff, 91, 0, 0, 0] @
     [1, 2] @ [3]"

section \<open>Properties of the encoder\<close>

subsection \<open>Packing and reading 32-bit fields\<close>

lemma length_le_bytes [simp]: "length (le_bytes n v) = n"
  by (induction n arbitrary: v) auto

lemma le_value_le_bytes: "le_value (le_bytes n v) = v mod 256 ^ n"
proof (induction n arbitrary: v)
  case 0
  show ?case by simp
next
  case (Suc n)
  have "uint (word_of_int v :: byte) = v mod 256"
    by (simp add: uint_word_of_int)
  moreover have "v mod (256 * 256 ^ n) = 256 * (v div 256 mod 256 ^ n) + v mod 256"
    by (rule zmod_zmult2_eq) simp
  ultimately show ?case using Suc by simp
qed

lemma le_value_le_bytes4: "0 \<le> v \<Longrightarrow> v < 2 ^ 32 \<Longrightarrow> le_value (le_bytes 4 v) = v"
  by (simp add: le_value_le_bytes)

lemma payload_size_simps [simp]:
  "payload_size [] = 0"
  "payload_size (img # images) = int (length (snd img)) + payload_size images"
  by (simp_all add: payload_size_def)

lemma payload_size_nonneg [simp]: "0 \<le> payload_size images"
  by (simp add: payload_size_def)

lemma write_I_Inr: "write_I v f = (Inr u, f') \<longleftrightarrow> 0 \<le> v \<and> v < 2 ^ 32 \<and> f' = f @ le_bytes 4 v"
  by (auto simp: write_I_def pack_I_def)

lemma write_I_ok: "0 \<le> v \<Longrightarrow> v < 2 ^ 32 \<Longrightarrow> write_I v f = (Inr (), f @ le_bytes 4 v)"
  by (simp add: write_I_def pack_I_def)

lemma and_then_Inr:
  "and_then m k f = (Inr r, f') \<longleftrightarrow> (\<exists>a f1. m f = (Inr a, f1) \<and> k a f1 = (Inr r, f'))"
  by (auto simp: and_then_def split: prod.splits sum.splits)

lemma write_index_Inr:
  "write_index images t i f = (Inr r, f') \<Longrightarrow>
     r = i + payload_size images \<and> f' = f @ index_bytes t i images"
proof (induction images arbitrary: t i f)
  case Nil
  then show ?case by simp
next
  case (Cons img images)
  from Cons.prems obtain f1 f2 where
    "write_I t f = (Inr (), f1)" "write_I i f1 = (Inr (), f2)"
    and r: "write_index images (t + 1) (i + int (length (snd img))) f2 = (Inr r, f')"
    by (auto simp: and_then_Inr)
  then have "f2 = f @ le_bytes 4 t @ le_bytes 4 i" by (auto simp: write_I_Inr)
  with Cons.IH [OF r] show ?case by simp
qed

lemma write_index_ok:
  "0 \<le> t \<Longrightarrow> 0 \<le> i \<Longrightarrow> t + int (length images) \<le> 2 ^ 32 \<Longrightarrow> i + payload_size images < 2 ^ 32 \<Longrightarrow>
     write_index images t i f = (Inr (i + payload_size images), f @ index_bytes t i images)"
proof (induction images arbitrary: t i f)
  case Nil
  then show ?case by simp
next
  case (Cons img images)
  have "0 \<le> payload_size images" by simp
  then have t: "t < 2 ^ 32" and i: "i < 2 ^ 32"
    using Cons.prems by (simp_all del: payload_size_nonneg)
  have "write_index images (t + 1) (i + int (length (snd img))) (f @ le_bytes 4 t @ le_bytes 4 i) =
      (Inr (i + int (length (snd img)) + payload_size images),
       (f @ le_bytes 4 t @ le_bytes 4 i) @ index_bytes (t + 1) (i + int (length (snd img))) images)"
    using Cons.prems by (intro Cons.IH) auto
  then show ?case
    using Cons.prems t i by (simp add: and_then_def write_I_ok add.assoc)
qed


lemma write_bif_Inr:
  assumes "write_bif interval images = (Inr u, bs)"
  shows "bif_fits interval images \<and> bs = bif_layout interval images"
proof -
  from assms obtain f4 f5 r where
    iv: "0 \<le> 1000 * interval \<and> 1000 * interval < 2 ^ 32"
    and f4: "f4 = bif_header interval (length images)"
    and idx: "write_index images 0 (64 + (8 + 8 * int (length images))) f4 = (Inr r, f5)"
    and r: "0 \<le> r \<and> r < 2 ^ 32"
    and bs: "bs = f5 @ le_bytes 4 0xffffffff @ le_bytes 4 r @ concat (map snd images)"
    by (auto simp: write_bif_def Let_def and_then_Inr write_I_Inr bif_header_def)
  from write_index_Inr [OF idx]
  have "r = 72 + 8 * int (length images) + payload_size images"
    and "f5 = f4 @ index_bytes 0 (72 + 8 * int (length images)) images"
    by (simp_all add: add.assoc)
  with iv f4 r bs show ?thesis
    by (simp add: bif_fits_def bif_layout_def bif_table_def)
qed

lemma write_bif_ok:
  assumes "bif_fits interval images"
  shows "write_bif interval images = (Inr (), bif_layout interval images)"
proof -
  let ?n = "int (length images)"
  have p: "0 \<le> payload_size images" by simp
  from assms have iv: "0 \<le> 1000 * interval" "1000 * interval < 2 ^ 32"
    and tot: "72 + 8 * ?n + payload_size images < 2 ^ 32"
    by (simp_all add: bif_fits_def)
  from tot p have n: "?n < 2 ^ 32" "0 + ?n \<le> 2 ^ 32"
    by (simp_all del: payload_size_nonneg)
  have idx: "write_index images 0 (72 + 8 * ?n) f =
      (Inr (72 + 8 * ?n + payload_size images), f @ index_bytes 0 (72 + 8 * ?n) images)" for f
    using tot n by (intro write_index_ok) simp_all
  have r: "0 \<le> 72 + 8 * ?n + payload_size images" by simp
  show ?thesis
    using iv n tot r
    by (simp add: write_bif_def Let_def and_then_def write_I_ok idx
        bif_layout_def bif_header_def bif_table_def del: payload_size_nonneg)
qed

lemma generate_bif_Inr:
  "generate_bif st wr d = (Inr u, Some bs) \<longleftrightarrow>
     wr \<and> bif_fits (PLEX_BIF_FRAME_INTERVAL st) (bif_images d) \<and>
     bs = bif_layout (PLEX_BIF_FRAME_INTERVAL st) (bif_images d)"
  by (auto simp: generate_bif_def Let_def write_bif_ok dest: write_bif_Inr split: prod.splits)

lemma length_index_bytes [simp]: "length (index_bytes t i images) = 8 * length images"
  by (induction images arbitrary: t i) auto

lemma length_bif_header [simp]: "length (bif_header interval n) = 76"
  by (simp add: bif_header_def bif_magic_def)

lemma length_bif_table [simp]: "length (bif_table images) = 8 + 8 * length images"
  by (simp add: bif_table_def)

lemma read_u32_append_right: "read_u32 (xs @ ys) (length xs + p) = read_u32 ys p"
  by (simp add: read_u32_def)

lemma read_u32_append_left: "p + 4 \<le> length xs \<Longrightarrow> read_u32 (xs @ ys) p = read_u32 xs p"
  by (simp add: read_u32_def)

lemma read_u32_le_bytes: "0 \<le> v \<Longrightarrow> v < 2 ^ 32 \<Longrightarrow> read_u32 (le_bytes 4 v @ ys) 0 = v"
  using le_value_le_bytes4 [of v] by (simp add: read_u32_def)

lemma payload_size_append [simp]:
  "payload_size (xs @ ys) = payload_size xs + payload_size ys"
  by (simp add: payload_size_def)

lemma payload_size_take_Suc:
  "i < length images \<Longrightarrow>
     payload_size (take (Suc i) images) = payload_size (take i images) + int (length (snd (images ! i)))"
  by (simp add: take_Suc_conv_app_nth)

lemma payload_size_take_le: "payload_size (take i images) \<le> payload_size images"
proof -
  have "payload_size images = payload_size (take i images) + payload_size (drop i images)"
    by (metis append_take_drop_id payload_size_append)
  moreover have "0 \<le> payload_size (drop i images)" by simp
  ultimately show ?thesis by linarith
qed

lemma index_bytes_entry:
  "i < length images \<Longrightarrow>
     drop (8 * i) (index_bytes t idx images) =
       le_bytes 4 (t + int i) @ le_bytes 4 (idx + payload_size (take i images)) @
       drop (8 * Suc i) (index_bytes t idx images)"
proof (induction images arbitrary: t idx i)
  case Nil
  then show ?case by simp
next
  case (Cons img images)
  show ?case
  proof (cases i)
    case 0
    then show ?thesis by simp
  next
    case (Suc j)
    with Cons.prems have "j < length images" by simp
    from Cons.IH [OF this, of "t + 1" "idx + int (length (snd img))"] Suc
    show ?thesis by (simp add: add.assoc)
  qed
qed


lemma index_bytes_timestamp:
  assumes "i < length images" "0 \<le> t" "t + int i < 2 ^ 32"
  shows "read_u32 (index_bytes t idx images @ ys) (8 * i) = t + int i"
proof -
  have "read_u32 (index_bytes t idx images @ ys) (8 * i) =
      le_value (take 4 (drop (8 * i) (index_bytes t idx images)))"
    using assms(1) by (simp add: read_u32_def)
  also have "\<dots> = le_value (le_bytes 4 (t + int i))"
    by (subst index_bytes_entry [OF assms(1)]) simp
  also have "\<dots> = t + int i"
    using assms by (simp add: le_value_le_bytes4)
  finally show ?thesis .
qed

lemma index_bytes_offset:
  assumes "i < length images" "0 \<le> idx" "idx + payload_size (take i images) < 2 ^ 32"
  shows "read_u32 (index_bytes t idx images @ ys) (8 * i + 4) = idx + payload_size (take i images)"
proof -
  have "read_u32 (index_bytes t idx images @ ys) (8 * i + 4) =
      le_value (take 4 (drop 4 (drop (8 * i) (index_bytes t idx images))))"
    using assms(1) by (simp add: read_u32_def add.commute)
  also have "\<dots> = le_value (le_bytes 4 (idx + payload_size (take i images)))"
    by (subst index_bytes_entry [OF assms(1)]) simp
  also have "\<dots> = idx + payload_size (take i images)"
    using assms by (simp add: le_value_le_bytes4)
  finally show ?thesis .
qed

lemma bif_layout_timestamp:
  assumes "bif_fits interval images" "i < length images"
  shows "read_u32 (bif_layout interval images) (76 + 8 * i) = int i"
proof -
  have "0 \<le> payload_size images" by simp
  with assms have "int i < 2 ^ 32"
    by (simp add: bif_fits_def del: payload_size_nonneg)
  then have "read_u32 (index_bytes 0 (72 + 8 * int (length images)) images @ ys) (8 * i) = 0 + int i" for ys
    using assms(2) by (intro index_bytes_timestamp) simp_all
  then show ?thesis
    using read_u32_append_right [of "bif_header interval (length images)"]
    by (simp add: bif_layout_def bif_table_def)
qed

lemma bif_layout_offset:
  assumes "bif_fits interval images" "i < length images"
  shows "read_u32 (bif_layout interval images) (80 + 8 * i) =
           72 + 8 * int (length images) + payload_size (take i images)"
proof -
  have "payload_size (take i images) \<le> payload_size images" by (rule payload_size_take_le)
  with assms have "72 + 8 * int (length images) + payload_size (take i images) < 2 ^ 32"
    by (simp add: bif_fits_def)
  then have "read_u32 (index_bytes 0 (72 + 8 * int (length images)) images @ ys) (8 * i + 4) =
      72 + 8 * int (length images) + payload_size (take i images)" for ys
    using assms(2) by (intro index_bytes_offset) simp_all
  moreover have "80 + 8 * i = length (bif_header interval (length images)) + (8 * i + 4)" by simp
  ultimately show ?thesis
    unfolding bif_layout_def bif_table_def
    by (simp only: read_u32_append_right append_assoc)
qed

lemma bif_layout_sentinel:
  assumes "bif_fits interval images"
  shows "read_u32 (bif_layout interval images) (76 + 8 * length images) = 0xffffffff"
    and "read_u32 (bif_layout interval images) (80 + 8 * length images) =
           72 + 8 * int (length images) + payload_size images"
    and "int (length (bif_layout interval images)) = 84 + 8 * int (length images) + payload_size images"
proof -
  let ?n = "length images"
  let ?h = "bif_header interval ?n"
  let ?ix = "index_bytes 0 (72 + 8 * int ?n) images"
  let ?v = "72 + 8 * int ?n + payload_size images"
  let ?p = "concat (map snd images)"
  have l: "bif_layout interval images = (?h @ ?ix) @ le_bytes 4 0xffffffff @ le_bytes 4 ?v @ ?p"
    by (simp add: bif_layout_def bif_table_def)
  have len: "length (?h @ ?ix) = 76 + 8 * ?n" by simp
  have v: "0 \<le> ?v" "?v < 2 ^ 32" using assms by (simp_all add: bif_fits_def)
  have "read_u32 ((?h @ ?ix) @ le_bytes 4 0xffffffff @ le_bytes 4 ?v @ ?p) (length (?h @ ?ix) + 0) = 0xffffffff"
    by (subst read_u32_append_right) (simp add: read_u32_le_bytes)
  then show "read_u32 (bif_layout interval images) (76 + 8 * ?n) = 0xffffffff"
    by (simp only: l len add_0_right)
  have "read_u32 (((?h @ ?ix) @ le_bytes 4 0xffffffff) @ le_bytes 4 ?v @ ?p)
          (length ((?h @ ?ix) @ le_bytes 4 0xffffffff) + 0) = ?v"
    by (subst read_u32_append_right) (rule read_u32_le_bytes [OF v])
  moreover have "length ((?h @ ?ix) @ le_bytes 4 0xffffffff) + 0 = 80 + 8 * ?n" by simp
  ultimately show "read_u32 (bif_layout interval images) (80 + 8 * ?n) = ?v"
    by (simp only: l append_assoc)
  show "int (length (bif_layout interval images)) = 84 + 8 * int ?n + payload_size images"
    by (simp add: bif_layout_def payload_size_def)
qed

text \<open>
  The closing offset of every artifact is twelve short of the length of the file: the
  offsets count from a header of 64 bytes, the header written has 76.
\<close>

lemma generate_bif_sentinel_short:
  assumes "generate_bif st wr d = (Inr (), Some bs)"
  shows "read_u32 bs (80 + 8 * length (bif_images d)) = int (length bs) - 12"
  using assms bif_layout_sentinel(2,3) [of "PLEX_BIF_FRAME_INTERVAL st" "bif_images d"]
  by (simp add: generate_bif_Inr)

lemma bif_layout_count:
  assumes "bif_fits interval images"
  shows "read_u32 (bif_layout interval images) 12 = int (length images)"
proof -
  have "0 \<le> payload_size images" by simp
  with assms have n: "int (length images) < 2 ^ 32"
    by (simp add: bif_fits_def del: payload_size_nonneg)
  have "read_u32 ((bif_magic @ le_bytes 4 0) @ le_bytes 4 (int (length images)) @ r)
          (length (bif_magic @ le_bytes 4 0) + 0) = int (length images)" for r
    by (subst read_u32_append_right) (rule read_u32_le_bytes, simp, rule n)
  then show ?thesis
    by (simp add: bif_layout_def bif_header_def bif_magic_def)
qed

text \<open>The three parts of every artifact: 76 bytes, the index table, the frames.\<close>

lemma generate_bif_header:
  assumes "generate_bif st wr d = (Inr (), Some bs)"
  shows "take 76 bs = bif_header (PLEX_BIF_FRAME_INTERVAL st) (length (bif_images d))"
    and "take (8 + 8 * length (bif_images d)) (drop 76 bs) = bif_table (bif_images d)"
    and "drop (84 + 8 * length (bif_images d)) bs = concat (map snd (bif_images d))"
  using assms by (simp_all add: generate_bif_Inr bif_layout_def)

section \<open>Properties of frame names\<close>

lemma insort_key_fst_names:
  "map fst (insort_key fst x xs) = insort (fst x) (map fst xs)"
  by (induction xs) simp_all

lemma sort_key_fst_names: "map fst (sort_key fst xs) = sort (map fst xs)"
  by (induction xs) (simp_all add: insort_key_fst_names)

lemma digit_cases: "d < 10 \<Longrightarrow> d \<in> {0, 1, 2, 3, 4, 5, 6, 7, 8, 9 :: nat}"
  by auto

lemma is_digit_digit_char: "d < 10 \<Longrightarrow> is_digit (digit_char d)"
  by (drule digit_cases) (auto simp: is_digit_def digit_char_def)

lemma digit_val_digit_char: "d < 10 \<Longrightarrow> digit_val (digit_char d) = d"
  by (drule digit_cases) (auto simp: digit_val_def digit_char_def)

lemma is_digit_not_strip:
  "is_digit c \<Longrightarrow> c \<notin> set ''img-'' \<and> c \<notin> set ''.jpg'' \<and> \<not> py_space c \<and>
     c \<noteq> CHR ''-'' \<and> c \<noteq> CHR ''+'' \<and> c \<noteq> CHR ''_''"
  by (auto simp: is_digit_def py_space_def)

lemma dec_digits: "\<forall>c \<in> set (dec n). is_digit c"
  by (induction n rule: dec.induct) (subst dec.simps, auto simp: is_digit_digit_char)

lemma dec_nonempty: "dec n \<noteq> []"
  by (subst dec.simps) simp

lemma dec_val_snoc: "dec_val (s @ [c]) = 10 * dec_val s + digit_val c"
  by (simp add: dec_val_def)

lemma dec_val_dec: "dec_val (dec n) = n"
proof (induction n rule: dec.induct)
  case (1 n)
  show ?case
  proof (cases "n < 10")
    case True
    then show ?thesis
      by (subst dec.simps) (simp add: dec_val_def digit_val_digit_char)
  next
    case False
    with 1 have "dec_val (dec (n div 10)) = n div 10" by simp
    with False show ?thesis
      by (subst dec.simps) (simp add: dec_val_snoc digit_val_digit_char)
  qed
qed

lemma dec_val_zeros: "dec_val (replicate m (CHR ''0'') @ s) = dec_val s"
proof -
  have "foldl (\<lambda>acc c. 10 * acc + digit_val c) 0 (replicate m (CHR ''0'')) = 0"
    by (induction m) (simp_all add: digit_val_def)
  then show ?thesis by (simp add: dec_val_def)
qed


lemma dropWhile_keep: "s \<noteq> [] \<Longrightarrow> \<not> P (hd s) \<Longrightarrow> dropWhile P (s @ r) = s @ r"
  by (cases s) simp_all

lemma digits_ok_digits: "s \<noteq> [] \<Longrightarrow> \<forall>c \<in> set s. is_digit c \<Longrightarrow> digits_ok s"
  by (induction s rule: digits_ok.induct) (auto dest: is_digit_not_strip)

lemma digits_ends:
  assumes "s \<noteq> []" "\<forall>c \<in> set s. is_digit c"
  shows "is_digit (hd s)" "is_digit (hd (rev s))"
  using assms by (simp_all add: hd_rev)

lemma py_int_digits:
  assumes "s \<noteq> []" "\<forall>c \<in> set s. is_digit c"
  shows "py_int s = Inr (int (dec_val s))"
proof -
  note e = digits_ends [OF assms]
  have 1: "dropWhile py_space s = s"
    using dropWhile_keep [of s py_space "[]"] assms(1) e(1) by (simp add: is_digit_not_strip)
  have 2: "dropWhile py_space (rev s) = rev s"
    using dropWhile_keep [of "rev s" py_space "[]"] assms(1) e(2) by (simp add: is_digit_not_strip)
  have 3: "hd s \<noteq> CHR ''-''" "hd s \<noteq> CHR ''+''"
    using e(1) by (simp_all add: is_digit_not_strip)
  have 4: "filter (\<lambda>c. c \<noteq> CHR ''_'') s = s"
    using assms(2) by (auto simp: filter_id_conv dest: is_digit_not_strip)
  show ?thesis
    using assms by (simp add: py_int_def 1 2 3 4 digits_ok_digits)
qed

lemma strip_img:
  assumes "s \<noteq> []" "\<forall>c \<in> set s. is_digit c"
  shows "py_strip ''.jpg'' (py_strip ''img-'' (''img-'' @ s @ ''.jpg'')) = s"
proof -
  note e = digits_ends [OF assms]
  have a: "dropWhile (\<lambda>c. c \<in> set ''img-'') (s @ r) = s @ r" for r
    using assms(1) e(1) by (intro dropWhile_keep) (simp_all add: is_digit_not_strip del: set_simps)
  have b: "dropWhile (\<lambda>c. c \<in> set ''.jpg'') (s @ r) = s @ r" for r
    using assms(1) e(1) by (intro dropWhile_keep) (simp_all add: is_digit_not_strip del: set_simps)
  have c: "dropWhile (\<lambda>c. c \<in> set ''.jpg'') (rev s) = rev s"
    using dropWhile_keep [of "rev s" "\<lambda>c. c \<in> set ''.jpg''" "[]"] assms(1) e(2)
    by (simp add: is_digit_not_strip del: set_simps)
  have 1: "py_strip ''img-'' (''img-'' @ s @ ''.jpg'') = s @ ''.jp''"
    using a [of "''.jpg''"] by (simp add: py_strip_def)
  have 2: "py_strip ''.jpg'' (s @ ''.jp'') = s"
    using b [of "''.jp''"] c by (simp add: py_strip_def)
  show ?thesis by (simp only: 1 2)
qed

lemma zfill_digits:
  "\<forall>c \<in> set s. is_digit c \<Longrightarrow> \<forall>c \<in> set (zfill w s). is_digit c"
proof -
  have "is_digit (CHR ''0'')" by (simp add: is_digit_def)
  then show "\<forall>c \<in> set s. is_digit c \<Longrightarrow> \<forall>c \<in> set (zfill w s). is_digit c"
    by (auto simp: zfill_def)
qed

lemma zfill_nonempty: "s \<noteq> [] \<Longrightarrow> zfill w s \<noteq> []"
  by (simp add: zfill_def)

lemma frame_no_img_name: "frame_no (img_name k) = Inr (int k - 1)"
proof -
  let ?s = "zfill 6 (dec k)"
  have s: "?s \<noteq> []" "\<forall>c \<in> set ?s. is_digit c"
    by (rule zfill_nonempty [OF dec_nonempty], rule zfill_digits [OF dec_digits])
  have "dec_val ?s = k"
    by (simp add: zfill_def dec_val_zeros dec_val_dec)
  then show ?thesis
    unfolding frame_no_def img_name_def
    by (simp only: strip_img [OF s] py_int_digits [OF s]) simp
qed

lemma length_zfill: "length (zfill w s) = max w (length s)"
  by (simp add: zfill_def)

lemma glob_img_img_name: "glob_img (img_name k)"
  by (simp add: glob_img_def img_name_def startswith_def endswith_def length_zfill)

lemma length_fixed_dec [simp]: "length (fixed_dec w n) = w"
  by (induction w arbitrary: n) auto

lemma fixed_dec_0: "fixed_dec w 0 = replicate w (CHR ''0'')"
  by (induction w) (simp_all add: digit_char_def replicate_append_same)

lemma length_dec_le: "0 < w \<Longrightarrow> n < 10 ^ w \<Longrightarrow> length (dec n) \<le> w"
proof (induction n arbitrary: w rule: dec.induct)
  case (1 n)
  show ?case
  proof (cases "n < 10")
    case True
    with 1(2) show ?thesis by (subst dec.simps) simp
  next
    case False
    with 1(3) obtain v where w: "w = Suc v" by (cases w) auto
    with False 1(3) have v: "0 < v" by (cases v) auto
    from 1(3) w have "n div 10 < 10 ^ v" by (simp add: less_mult_imp_div_less mult.commute)
    with 1(1) [OF False v] False w show ?thesis by (subst dec.simps) simp
  qed
qed

lemma zfill_dec: "0 < w \<Longrightarrow> n < 10 ^ w \<Longrightarrow> zfill w (dec n) = fixed_dec w n"
proof (induction n arbitrary: w rule: dec.induct)
  case (1 n)
  from 1(2) obtain v where w: "w = Suc v" by (cases w) auto
  show ?case
  proof (cases "n < 10")
    case True
    then show ?thesis
      by (subst dec.simps) (simp add: w zfill_def fixed_dec_0)
  next
    case False
    with 1(3) w have v: "0 < v" by (cases v) auto
    from 1(3) w have d: "n div 10 < 10 ^ v" by (simp add: less_mult_imp_div_less mult.commute)
    from length_dec_le [OF v d] have "Suc v - Suc (length (dec (n div 10))) = v - length (dec (n div 10))"
      by simp
    with 1(1) [OF False v d] False show ?thesis
      by (subst dec.simps) (simp add: w zfill_def)
  qed
qed

lemma less_append_same_length:
  fixes xs ys :: string
  shows "length xs = length ys \<Longrightarrow> xs < ys \<Longrightarrow> xs @ us < ys @ vs"
  by (simp add: list_less_def lexord_sufI)

lemma less_append_prefix:
  fixes us vs :: string
  shows "us < vs \<Longrightarrow> xs @ us < xs @ vs"
  by (simp add: list_less_def lexord_append_leftI)

lemma of_char_digit_char: "d < 10 \<Longrightarrow> of_char (digit_char d) = 48 + d"
  by (drule digit_cases) (auto simp: digit_char_def)

lemma digit_char_mono: "a < b \<Longrightarrow> b < 10 \<Longrightarrow> digit_char a < digit_char b"
  using of_char_digit_char [of a] of_char_digit_char [of b]
  by (simp add: less_char_def)

lemma fixed_dec_mono: "a < b \<Longrightarrow> b < 10 ^ w \<Longrightarrow> fixed_dec w a < fixed_dec w b"
proof (induction w arbitrary: a b)
  case 0
  then show ?case by simp
next
  case (Suc w)
  from Suc.prems have le: "a div 10 \<le> b div 10" by (simp add: div_le_mono)
  from Suc.prems have b: "b div 10 < 10 ^ w" by (simp add: less_mult_imp_div_less mult.commute)
  show ?case
  proof (cases "a div 10 < b div 10")
    case True
    from Suc.IH [OF True b] show ?thesis
      by (simp add: less_append_same_length)
  next
    case False
    with le have eq: "a div 10 = b div 10" by simp
    with Suc.prems(1) have "a mod 10 < b mod 10"
      by (metis div_mult_mod_eq nat_add_left_cancel_less)
    then have "[digit_char (a mod 10)] < [digit_char (b mod 10)]"
      by (simp add: digit_char_mono)
    then show ?thesis
      by (simp add: eq less_append_prefix)
  qed
qed

lemma fixed_dec_less_iff:
  assumes "a < 10 ^ w" "b < 10 ^ w"
  shows "fixed_dec w a @ s < fixed_dec w b @ s \<longleftrightarrow> a < b"
proof
  assume "a < b"
  with assms show "fixed_dec w a @ s < fixed_dec w b @ s"
    by (simp add: fixed_dec_mono less_append_same_length)
next
  assume l: "fixed_dec w a @ s < fixed_dec w b @ s"
  show "a < b"
  proof (rule ccontr)
    assume "\<not> a < b"
    then consider "a = b" | "b < a" by linarith
    then show False
    proof cases
      case 1
      with l show False by simp
    next
      case 2
      with assms have "fixed_dec w b @ s < fixed_dec w a @ s"
        by (simp add: fixed_dec_mono less_append_same_length)
      with l show False by simp
    qed
  qed
qed

lemma fmt_010d_fixed: "0 \<le> t \<Longrightarrow> t < 10 ^ 10 \<Longrightarrow> fmt_010d t = fixed_dec 10 (nat t)"
proof -
  assume t: "0 \<le> t" "t < 10 ^ 10"
  then have "nat t < 10 ^ 10" by (simp add: nat_less_iff)
  then have "zfill 10 (dec (nat t)) = fixed_dec 10 (nat t)"
    by (intro zfill_dec) simp_all
  with t show ?thesis by (simp add: fmt_010d_def)
qed

lemma new_name_img_name:
  "new_name interval (img_name k) = Inr (fmt_010d ((int k - 1) * interval) @ ''.jpg'')"
  by (simp add: new_name_def frame_second_def frame_no_img_name)

section \<open>Properties of the job\<close>


lemma os_rename_other:
  "os_rename src dst w = Inr w' \<Longrightarrow>
     files w' = files w \<and> metrics w' = metrics w \<and> transcoder_runs w' = transcoder_runs w"
  by (auto simp: os_rename_def Let_def split: option.splits)

lemma rename_images_other:
  "files (snd (rename_images interval out images w)) = files w \<and>
   metrics (snd (rename_images interval out images w)) = metrics w \<and>
   transcoder_runs (snd (rename_images interval out images w)) = transcoder_runs w"
proof (induction images arbitrary: w)
  case Nil
  show ?case by simp
next
  case (Cons img images)
  show ?case
  proof (cases "new_name interval (snd img)")
    case (Inl e)
    then show ?thesis by simp
  next
    case (Inr dst)
    show ?thesis
    proof (cases "os_rename img (out, dst) w")
      case (Inl e)
      with Inr show ?thesis by simp
    next
      case r: (Inr w')
      from os_rename_other [OF r] Cons.IH [of w'] Inr r show ?thesis by simp
    qed
  qed
qed

lemma run_ffmpeg_other [simp]:
  "files (run_ffmpeg video out env w) = files w"
  "metrics (run_ffmpeg video out env w) = metrics w"
  "transcoder_runs (run_ffmpeg video out env w) = transcoder_runs w @ [video]"
  by (simp_all add: run_ffmpeg_def)

lemma generate_images_files [simp]:
  "files (snd (generate_images st video out gpu env w)) = files w"
  using rename_images_other [of "PLEX_BIF_FRAME_INTERVAL st" out
      "glob_images out env (run_ffmpeg video out env w)" "run_ffmpeg video out env w"]
  by (auto simp: generate_images_def Let_def insert_metric_def split: sum.splits prod.splits)

lemma generate_images_metrics:
  "metrics (snd (generate_images st video out gpu env w)) =
     metrics w @
       (if fst (generate_images st video out gpu env w) = Inr () \<and> returncode env = 0
        then [\<lparr>video_file = video,
                hw_accel = (hw_accel_used st gpu (gpu_processes env) = Inr True)\<rparr>]
        else [])"
  using rename_images_other [of "PLEX_BIF_FRAME_INTERVAL st" out
      "glob_images out env (run_ffmpeg video out env w)" "run_ffmpeg video out env w"]
  by (auto simp: generate_images_def Let_def insert_metric_def split: sum.splits prod.splits)

lemma generate_images_Inr_accel:
  "fst (generate_images st video out gpu env w) = Inr u \<Longrightarrow>
     \<exists>hw. hw_accel_used st gpu (gpu_processes env) = Inr hw"
  by (auto simp: generate_images_def split: if_splits sum.splits)

text \<open>A non-zero exit status alone never makes \<^verbatim>\<open>generate_images\<close> raise.\<close>

lemma generate_images_nonzero_exit:
  "PLEX_BIF_FRAME_INTERVAL st \<noteq> 0 \<Longrightarrow> hw_accel_used st gpu (gpu_processes env) = Inr hw \<Longrightarrow>
   returncode env \<noteq> 0 \<Longrightarrow>
     fst (generate_images st video out gpu env w) = Inr () \<and>
     metrics (snd (generate_images st video out gpu env w)) = metrics w"
  by (simp add: generate_images_def Let_def)

text \<open>A zero interval raises before the transcoder is started.\<close>

lemma generate_images_zero_interval:
  "PLEX_BIF_FRAME_INTERVAL st = 0 \<Longrightarrow>
     generate_images st video out gpu env w = (Inl ZeroDivisionError, w)"
  by (simp add: generate_images_def)

text \<open>On the NVIDIA branch any listed process ends the extraction before the transcoder.\<close>

lemma generate_images_nvidia_listing:
  "PLEX_BIF_FRAME_INTERVAL st \<noteq> 0 \<Longrightarrow> gpu_processes env \<noteq> [] \<Longrightarrow>
     generate_images st video out (Some ''NVIDIA'') env w = (Inl AttributeError, w)"
  by (cases "gpu_processes env") (simp_all add: generate_images_def hw_accel_used_def)

text \<open>The AMD branch and the NVIDIA branch without a listed process decide as configured.\<close>

lemma hw_accel_used_amd:
  "gpu = Some g \<Longrightarrow> g \<noteq> [] \<Longrightarrow> g \<noteq> ''NVIDIA'' \<Longrightarrow>
     hw_accel_used st gpu processes =
       Inr (int (amd_ffmpeg_count processes) < GPU_THREADS st \<or> CPU_THREADS st = 0)"
  by (simp add: hw_accel_used_def)

lemma hw_accel_used_nvidia_idle:
  "hw_accel_used st (Some ''NVIDIA'') [] = Inr (0 < GPU_THREADS st \<or> CPU_THREADS st = 0)"
  by (simp add: hw_accel_used_def)


lemma run_generate_bif_metrics [simp]:
  "metrics (snd (run_generate_bif st p d env w)) = metrics w"
  by (simp add: run_generate_bif_def split: option.splits prod.splits)

lemma run_generate_bif_dirs [simp]:
  "dirs (snd (run_generate_bif st p d env w)) = dirs w"
  by (simp add: run_generate_bif_def split: option.splits prod.splits)

lemma generate_bif_not_Inr_None [simp]: "generate_bif st wr d \<noteq> (Inr u, None)"
  by (auto simp: generate_bif_def Let_def split: prod.splits if_splits)

lemma run_generate_bif_Inr:
  "run_generate_bif st p tmp env w = (Inr u, w') \<Longrightarrow>
     files w' p \<noteq> None \<and> dirs w' = dirs w \<and> metrics w' = metrics w"
  by (auto simp: run_generate_bif_def split: option.splits prod.splits)

lemma rmtree_simps [simp]:
  "dirs (rmtree p w) p = None" "files (rmtree p w) = files w" "metrics (rmtree p w) = metrics w"
  by (simp_all add: rmtree_def)

lemma os_remove_simps [simp]:
  "files (os_remove p w) p = None" "dirs (os_remove p w) = dirs w" "metrics (os_remove p w) = metrics w"
  by (simp_all add: os_remove_def)

text \<open>The shape of a job that is not skipped.\<close>

lemma process_media_part_run:
  assumes "part_hash part = Some h"
    and "process_media_part st argv1 gpu env part w = (out, w')"
    and "out \<noteq> Skipped"
  obtains w2 r2 w3 r3 where
    "generate_images st (part_file part) (tmp_path st h) gpu env (makedirs (tmp_path st h) w) = (r2, w2)"
    "run_generate_bif st (index_bif st h) (tmp_path st h) env w2 = (r3, w3)"
    "files w (index_bif st h) = None"
    "out = (case r2 of Inl e \<Rightarrow> ExtractionFailed e | Inr u \<Rightarrow> (case r3 of Inl e \<Rightarrow> EncodeFailed e | Inr u \<Rightarrow> Done))"
    "w' = rmtree (tmp_path st h) (case r2 of Inl e \<Rightarrow> w2 | Inr u \<Rightarrow>
            (case r3 of Inl e \<Rightarrow> (if index_bif st h \<in> dom (files w3) then os_remove (index_bif st h) w3 else w3)
                      | Inr u \<Rightarrow> w3))"
proof -
  obtain r2 w2 where g: "generate_images st (part_file part) (tmp_path st h) gpu env (makedirs (tmp_path st h) w) = (r2, w2)"
    by (cases "generate_images st (part_file part) (tmp_path st h) gpu env (makedirs (tmp_path st h) w)")
  obtain r3 w3 where b: "run_generate_bif st (index_bif st h) (tmp_path st h) env w2 = (r3, w3)"
    by (cases "run_generate_bif st (index_bif st h) (tmp_path st h) env w2")
  from assms g b show ?thesis
    by (intro that [OF g b])
       (auto simp: process_media_part_def split: if_splits option.splits sum.splits)
qed

lemma process_media_part_target_exists:
  "part_hash part = Some h \<Longrightarrow> index_bif st h \<in> dom (files w) \<Longrightarrow>
     process_media_part st argv1 gpu env part w = (Skipped, w)"
  by (auto simp: process_media_part_def)

lemma map_of_remove [simp]: "map_of (filter (\<lambda>e. fst e \<noteq> n) d) n = None"
  by (induction d) auto

lemma map_of_write_file_same [simp]: "map_of (write_file n c d) n = Some c"
  by (simp add: write_file_def map_add_def)

lemma map_of_write_file_other: "m \<noteq> n \<Longrightarrow> map_of (write_file n c d) m = map_of d m"
  by (induction d) (auto simp: write_file_def map_add_def split: option.splits)

lemma map_of_remove_other: "m \<noteq> n \<Longrightarrow> map_of (filter (\<lambda>e. fst e \<noteq> n) d) m = map_of d m"
  by (induction d) auto

lemma fmt_010d_digits:
  assumes "0 \<le> t" "t < 10 ^ 10"
  shows "length (fmt_010d t) = 10" "\<forall>c \<in> set (fmt_010d t). is_digit c"
    "int (dec_val (fmt_010d t)) = t"
proof -
  from assms have n: "nat t < 10 ^ 10" by (simp add: nat_less_iff)
  from assms show "length (fmt_010d t) = 10"
    by (simp add: fmt_010d_fixed)
  from assms(1) show "\<forall>c \<in> set (fmt_010d t). is_digit c"
    using zfill_digits [OF dec_digits, of 10 "nat t"] by (simp add: fmt_010d_def)
  from assms(1) show "int (dec_val (fmt_010d t)) = t"
    by (simp add: fmt_010d_def zfill_def dec_val_zeros dec_val_dec)
qed



subsection \<open>The frames of a job, renamed\<close>

lemma img_name_inj:
  assumes "img_name j = img_name k"
  shows "j = k"
proof -
  from assms have "frame_no (img_name j) = frame_no (img_name k)" by (rule arg_cong)
  then have "(Inr (int j - 1) :: error + int) = Inr (int k - 1)"
    by (simp only: frame_no_img_name)
  then show ?thesis by simp
qed

lemma dec_val_fmt_010d: "0 \<le> t \<Longrightarrow> int (dec_val (fmt_010d t)) = t"
  by (simp add: fmt_010d_def zfill_def dec_val_zeros dec_val_dec)

lemma fmt_010d_inj:
  assumes "0 \<le> s" "0 \<le> t" "fmt_010d s @ r = fmt_010d t @ r"
  shows "s = t"
proof -
  from assms(3) have "fmt_010d s = fmt_010d t" by (simp only: append_same_eq)
  then have "int (dec_val (fmt_010d s)) = int (dec_val (fmt_010d t))" by (rule arg_cong)
  with assms(1,2) show ?thesis by (simp only: dec_val_fmt_010d)
qed

lemma fmt_010d_not_img: "fmt_010d t @ r \<noteq> img_name j"
proof (cases "t < 0")
  case True
  then show ?thesis by (simp add: fmt_010d_def img_name_def)
next
  case False
  let ?s = "zfill 10 (dec (nat t))"
  have "?s \<noteq> []" by (rule zfill_nonempty [OF dec_nonempty])
  then obtain c cs where s: "?s = c # cs" by (cases ?s) auto
  with zfill_digits [OF dec_digits, of 10 "nat t"] have "is_digit c" by simp
  then have "c \<noteq> CHR ''i''" by (auto simp: is_digit_def)
  with False s show ?thesis by (simp add: fmt_010d_def img_name_def)
qed

lemma frame_files_names: "fst ` set (frame_files k frs) = img_name ` {k..<k + length frs}"
proof (induction frs arbitrary: k)
  case Nil
  show ?case by simp
next
  case (Cons fr frs)
  have "{k..<k + length (fr # frs)} = insert k {Suc k..<Suc k + length frs}" by auto
  with Cons [of "Suc k"] show ?case by simp
qed

lemma write_frames_fresh:
  "\<forall>e \<in> set d. \<forall>j \<ge> k. fst e \<noteq> img_name j \<Longrightarrow>
     write_frames k frs d = d @ frame_files k frs"
proof (induction frs arbitrary: k d)
  case Nil
  show ?case by simp
next
  case (Cons fr frs)
  from Cons.prems have 1: "write_file (img_name k) fr d = d @ [(img_name k, fr)]"
    by (auto simp: write_file_def filter_id_conv)
  have "\<forall>e \<in> set (d @ [(img_name k, fr)]). \<forall>j \<ge> Suc k. fst e \<noteq> img_name j"
    using Cons.prems by (auto dest: img_name_inj)
  from Cons.IH [OF this] 1 show ?case by simp
qed

lemma filter_names_id: "n \<notin> fst ` set d \<Longrightarrow> filter (\<lambda>e. fst e \<noteq> n) d = d"
  by (auto simp: filter_id_conv)

lemma frame_files_later: "j < k \<Longrightarrow> img_name j \<notin> fst ` set (frame_files k frs)"
  by (auto simp: frame_files_names dest: img_name_inj)

lemma frame_files_not_renamed: "fmt_010d t @ ''.jpg'' \<notin> fst ` set (frame_files k frs)"
  by (auto simp: frame_files_names fmt_010d_not_img)

lemma map_of_append_fresh:
  "n \<notin> fst ` set pre \<Longrightarrow> map_of (pre @ d) n = map_of d n"
  by (induction pre) auto

lemma rename_images_folder:
  assumes "0 < interval" and "1 \<le> k"
    and "dirs w out = Some (pre @ frame_files k frs @ fin)"
    and "\<forall>e \<in> set pre. \<forall>j. fst e \<noteq> img_name j"
    and "\<forall>e \<in> set fin. (\<forall>j. fst e \<noteq> img_name j) \<and>
           (\<forall>j \<ge> k. fst e \<noteq> fmt_010d ((int j - 1) * interval) @ ''.jpg'')"
  shows "rename_images interval out (map (\<lambda>e. (out, fst e)) (frame_files k frs)) w =
           (Inr (), w\<lparr>dirs := (dirs w)(out \<mapsto>
              filter (\<lambda>e. fst e \<notin> fst ` set (renamed_files interval k frs)) pre @
              fin @ renamed_files interval k frs)\<rparr>)"
  using assms(2-)
proof (induction frs arbitrary: k w pre fin)
  case Nil
  then have "(dirs w)(out \<mapsto> pre @ fin) = dirs w"
    by (simp add: fun_upd_idem)
  then show ?case by simp
next
  case (Cons fr frs)
  let ?nk = "fmt_010d ((int k - 1) * interval) @ ''.jpg''"
  let ?pre = "filter (\<lambda>e. fst e \<noteq> ?nk) pre"
  let ?w2 = "w\<lparr>dirs := (dirs w)(out \<mapsto> ?pre @ frame_files (Suc k) frs @ (fin @ [(?nk, fr)]))\<rparr>"
  have d: "dirs w out = Some (pre @ (img_name k, fr) # frame_files (Suc k) frs @ fin)"
    using Cons.prems(2) by simp
  have k_pre: "img_name k \<notin> fst ` set pre"
    using Cons.prems(3) by force
  have k_fin: "img_name k \<notin> fst ` set fin"
    using Cons.prems(4) by force
  have nk_fin: "?nk \<notin> fst ` set fin"
    using Cons.prems(4) by force
  have m: "map_of (pre @ (img_name k, fr) # frame_files (Suc k) frs @ fin) (img_name k) = Some fr"
    using map_of_append_fresh [OF k_pre, of "(img_name k, fr) # frame_files (Suc k) frs @ fin"]
    by (simp del: map_of_append)
  have a: "filter (\<lambda>e. fst e \<noteq> img_name k) pre = pre"
    "filter (\<lambda>e. fst e \<noteq> img_name k) (frame_files (Suc k) frs) = frame_files (Suc k) frs"
    "filter (\<lambda>e. fst e \<noteq> img_name k) fin = fin"
    using frame_files_later [of k "Suc k" frs] k_pre k_fin by (simp_all add: filter_names_id)
  have b: "filter (\<lambda>e. fst e \<noteq> ?nk) (frame_files (Suc k) frs) = frame_files (Suc k) frs"
    "filter (\<lambda>e. fst e \<noteq> ?nk) fin = fin"
    using frame_files_not_renamed [of "(int k - 1) * interval" "Suc k" frs] nk_fin
    by (simp_all add: filter_names_id)
  have r: "os_rename (out, img_name k) (out, ?nk) w = Inr ?w2"
    using d m by (simp add: os_rename_def write_file_def a b)
  have p: "\<forall>e \<in> set ?pre. \<forall>j. fst e \<noteq> img_name j"
    using Cons.prems(3) by simp
  have c: "\<forall>e \<in> set (fin @ [(?nk, fr)]). (\<forall>j. fst e \<noteq> img_name j) \<and>
           (\<forall>j \<ge> Suc k. fst e \<noteq> fmt_010d ((int j - 1) * interval) @ ''.jpg'')"
  proof -
    have "?nk \<noteq> fmt_010d ((int j - 1) * interval) @ ''.jpg''" if "Suc k \<le> j" for j
    proof
      assume e: "?nk = fmt_010d ((int j - 1) * interval) @ ''.jpg''"
      from assms(1) Cons.prems(1) that
      have "0 \<le> (int k - 1) * interval" "0 \<le> (int j - 1) * interval" by simp_all
      from fmt_010d_inj [OF this e] assms(1) that show False by simp
    qed
    with Cons.prems(4) show ?thesis by (auto simp: fmt_010d_not_img)
  qed
  have ih: "rename_images interval out (map (\<lambda>e. (out, fst e)) (frame_files (Suc k) frs)) ?w2 =
      (Inr (), ?w2\<lparr>dirs := (dirs ?w2)(out \<mapsto>
         filter (\<lambda>e. fst e \<notin> fst ` set (renamed_files interval (Suc k) frs)) ?pre @
         (fin @ [(?nk, fr)]) @ renamed_files interval (Suc k) frs)\<rparr>)"
    by (rule Cons.IH [OF _ _ p c]) simp_all
  have step: "rename_images interval out (map (\<lambda>e. (out, fst e)) (frame_files k (fr # frs))) w =
      rename_images interval out (map (\<lambda>e. (out, fst e)) (frame_files (Suc k) frs)) ?w2"
    by (simp add: new_name_img_name r)
  have f: "filter (\<lambda>e. fst e \<notin> fst ` set (renamed_files interval (Suc k) frs)) ?pre =
      filter (\<lambda>e. fst e \<notin> fst ` set (renamed_files interval k (fr # frs))) pre"
    by (auto intro: filter_cong)
  have fin_eq: "?w2\<lparr>dirs := (dirs ?w2)(out \<mapsto>
         filter (\<lambda>e. fst e \<notin> fst ` set (renamed_files interval (Suc k) frs)) ?pre @
         (fin @ [(?nk, fr)]) @ renamed_files interval (Suc k) frs)\<rparr> =
      w\<lparr>dirs := (dirs w)(out \<mapsto>
         filter (\<lambda>e. fst e \<notin> fst ` set (renamed_files interval k (fr # frs))) pre @
         fin @ renamed_files interval k (fr # frs))\<rparr>"
    by (simp only: f) simp
  show ?case by (simp only: step ih fin_eq)
qed

lemma renamed_files_map:
  "renamed_files interval k frs =
     map (\<lambda>j. (fmt_010d ((int j - 1) * interval) @ ''.jpg'', frs ! (j - k))) [k..<k + length frs]"
proof (induction frs arbitrary: k)
  case Nil
  show ?case by simp
next
  case (Cons fr frs)
  have "k < k + length (fr # frs)" by simp
  from upt_conv_Cons [OF this]
  have u: "[k..<k + length (fr # frs)] = k # [Suc k..<Suc k + length frs]" by simp
  have "map (\<lambda>j. (fmt_010d ((int j - 1) * interval) @ ''.jpg'', (fr # frs) ! (j - k)))
          [Suc k..<Suc k + length frs] =
        map (\<lambda>j. (fmt_010d ((int j - 1) * interval) @ ''.jpg'', frs ! (j - Suc k)))
          [Suc k..<Suc k + length frs]"
    by (rule map_cong) (auto simp: nth_Cons' simp del: upt_Suc)
  with Cons [of "Suc k"] u show ?case by (simp del: upt_Suc)
qed

lemma endswith_append [simp]: "endswith (s @ suffix) suffix"
  by (simp add: endswith_def)

lemma glob_img_frame_files:
  "filter glob_img (map fst (frame_files k frs)) = map fst (frame_files k frs)"
  by (induction frs arbitrary: k) (simp_all add: glob_img_img_name)

lemma bif_images_sorted_jpg:
  assumes "\<forall>e \<in> set d. endswith (fst e) ''.jpg''" "sorted (map fst d)"
  shows "bif_images d = d"
proof -
  from assms(1) have "filter (\<lambda>e. endswith (fst e) ''.jpg'') d = d"
    by (simp add: filter_id_conv)
  with assms(2) show ?thesis
    by (simp add: bif_images_def sort_key_id_if_sorted)
qed

lemma renamed_name_less_iff:
  assumes "0 \<le> s" "s < 10 ^ 10" "0 \<le> t" "t < 10 ^ 10"
  shows "fmt_010d s @ ''.jpg'' < fmt_010d t @ ''.jpg'' \<longleftrightarrow> s < t"
proof -
  have l: "fixed_dec 10 (nat s) @ ''.jpg'' < fixed_dec 10 (nat t) @ ''.jpg'' \<longleftrightarrow> nat s < nat t"
    using assms by (intro fixed_dec_less_iff) (simp_all add: nat_less_iff)
  have f: "fmt_010d s = fixed_dec 10 (nat s)" "fmt_010d t = fixed_dec 10 (nat t)"
    using assms by (simp_all add: fmt_010d_fixed)
  have n: "nat s < nat t \<longleftrightarrow> s < t"
    using assms(1) by (rule nat_less_eq_zless)
  show ?thesis by (simp only: f l n)
qed

lemma renamed_files_sorted:
  assumes "0 < interval" "1 \<le> k" "(int (k + length frs) - 2) * interval < 10 ^ 10"
  shows "sorted (map fst (renamed_files interval k frs))"
  using assms(2,3)
proof (induction frs arbitrary: k)
  case Nil
  show ?case by simp
next
  case (Cons fr frs)
  let ?t = "\<lambda>j. (int j - 1) * interval"
  have top: "?t j < 10 ^ 10" if "j < k + length (fr # frs)" for j
  proof -
    from that have "int j - 1 \<le> int (k + length (fr # frs)) - 2" by simp
    with assms(1) have "?t j \<le> (int (k + length (fr # frs)) - 2) * interval"
      by (intro mult_right_mono) simp_all
    with Cons.prems(2) show ?thesis by simp
  qed
  have bot: "0 \<le> ?t j" if "k \<le> j" for j
    using that assms(1) Cons.prems(1) by simp
  have "fmt_010d (?t k) @ ''.jpg'' \<le> fst e" if "e \<in> set (renamed_files interval (Suc k) frs)" for e
  proof -
    from that obtain j where j: "Suc k \<le> j" "j < Suc k + length frs"
      and e: "fst e = fmt_010d (?t j) @ ''.jpg''"
      by (auto simp: renamed_files_map simp del: upt_Suc)
    from j assms(1) have "?t k < ?t j" by simp
    moreover have "?t k < 10 ^ 10" by (rule top) simp
    moreover have "?t j < 10 ^ 10" by (rule top) (use j in simp)
    moreover have "0 \<le> ?t k" by (rule bot) simp
    moreover have "0 \<le> ?t j" by (rule bot) (use j in simp)
    ultimately have "fmt_010d (?t k) @ ''.jpg'' < fmt_010d (?t j) @ ''.jpg''"
      by (simp add: renamed_name_less_iff)
    with e show ?thesis by simp
  qed
  moreover have "sorted (map fst (renamed_files interval (Suc k) frs))"
    using Cons.prems by (intro Cons.IH) simp_all
  ultimately show ?case by simp
qed

lemma generate_images_renames:
  assumes "0 < PLEX_BIF_FRAME_INTERVAL st" "\<not> has_magic out" "dirs w out = Some d"
    and "\<forall>e \<in> set d. \<not> glob_img (fst e)"
    and "returncode env = 0" "hw_accel_used st gpu (gpu_processes env) = Inr hw"
  shows "generate_images st video out gpu env w =
    (Inr (), w\<lparr>transcoder_runs := transcoder_runs w @ [video],
               dirs := (dirs w)(out \<mapsto>
                 filter (\<lambda>e. fst e \<notin> fst ` set (renamed_files (PLEX_BIF_FRAME_INTERVAL st) 1 (frames env))) d @
                 renamed_files (PLEX_BIF_FRAME_INTERVAL st) 1 (frames env)),
               metrics := metrics w @ [\<lparr>video_file = video, hw_accel = hw\<rparr>]\<rparr>)"
proof -
  let ?iv = "PLEX_BIF_FRAME_INTERVAL st"
  let ?w1 = "w\<lparr>transcoder_runs := transcoder_runs w @ [video],
               dirs := (dirs w)(out \<mapsto> d @ frame_files (Suc 0) (frames env))\<rparr>"
  let ?fin = "filter (\<lambda>e. fst e \<notin> fst ` set (renamed_files ?iv (Suc 0) (frames env))) d @
      [] @ renamed_files ?iv (Suc 0) (frames env)"
  have ni: "\<forall>e \<in> set d. \<forall>j. fst e \<noteq> img_name j"
    using assms(4) glob_img_img_name by metis
  then have "write_frames (Suc 0) (frames env) d = d @ frame_files (Suc 0) (frames env)"
    by (intro write_frames_fresh) simp
  with assms(3) have w1: "run_ffmpeg video out env w = ?w1"
    by (simp add: run_ffmpeg_def)
  have "filter glob_img (map fst d) = []"
    using assms(4) by (induction d) simp_all
  then have g: "glob_images out env ?w1 = map (\<lambda>e. (out, fst e)) (frame_files (Suc 0) (frames env))"
    using assms(2) by (simp add: glob_images_def glob_img_frame_files comp_def)
  have r: "rename_images ?iv out (map (\<lambda>e. (out, fst e)) (frame_files (Suc 0) (frames env))) ?w1 =
      (Inr (), ?w1\<lparr>dirs := (dirs ?w1)(out \<mapsto> ?fin)\<rparr>)"
    using assms(1) ni by (intro rename_images_folder) simp_all
  have e: "generate_images st video out gpu env w =
      (Inr (), insert_metric video hw (?w1\<lparr>dirs := (dirs ?w1)(out \<mapsto> ?fin)\<rparr>))"
    using assms(1,5,6) by (simp add: generate_images_def Let_def w1) (simp only: g r, simp)
  show ?thesis
    by (simp only: e) (simp add: insert_metric_def)
qed


section \<open>The claims\<close>

subsection \<open>The job when the transcoder fails\<close>

text \<open>
  Claim C1. When the transcoder exits with a non-zero status, the claim has the
  extraction step fail, the job end as failed, the temporary directory removed and no
  artifact at the target. The code logs the failure and returns from \<^verbatim>\<open>generate_images\<close>
  without raising, so the handler around the call does not run and the encoder runs on
  whatever the directory holds. At the input below (status 1, no frame written, no target
  before) the job ends \<open>Done\<close> with an artifact of 84 bytes and no frame at the target;
  the temporary directory is removed and no metric is inserted.
\<close>

theorem C1_nonzero_exit_writes_artifact:
  "fst (process_media_part demo_settings None None failed_env demo_part demo_world) = Done \<and>
   files (snd (process_media_part demo_settings None None failed_env demo_part demo_world))
     ''/media/localhost/a/bc.bundle/Contents/Indexes/index-sd.bif'' =
     Some (bif_magic @ [0, 0, 0, 0] @ [0, 0, 0, 0] @ [0x88, 0x13, 0, 0] @ replicate 56 0 @
           [0xff, 0xff, 0xff, 0xff, 72, 0, 0, 0]) \<and>
   dirs (snd (process_media_part demo_settings None None failed_env demo_part demo_world))
     ''/tmp/abc'' = None \<and>
   metrics (snd (process_media_part demo_settings None None failed_env demo_part demo_world)) = []"
  by code_simp

subsection \<open>The bytes of the artifact\<close>

text \<open>
  Claim C2. The artifact opens with the magic constant, the version 0, the frame count
  and the interval in milliseconds, each field in four little-endian bytes, and zero
  padding up to a header of exactly 64 bytes, and the index table of \<open>8 + 8N\<close> bytes
  follows. The code pads with 56 bytes after the 20 bytes of the fields: the table of
  the two frames of \<open>demo_dir\<close> starts at byte 76, and the eight bytes at position 64,
  where the first entry belongs, are padding.
\<close>

theorem C2_header_written_is_76_bytes:
  "generate_bif demo_settings True demo_dir = (Inr (), Some demo_bif) \<and>
   take 76 demo_bif =
     bif_magic @ [0, 0, 0, 0] @ [2, 0, 0, 0] @ [0x88, 0x13, 0, 0] @ replicate 56 0 \<and>
   take 8 (drop 64 demo_bif) = replicate 8 0 \<and>
   take 8 (drop 76 demo_bif) = [0, 0, 0, 0, 88, 0, 0, 0] \<and>
   length demo_bif = 76 + (8 + 8 * 2) + 3"
  by code_simp

text \<open>
  Claim C3. The first offset of the index is 64 plus the size of the table, each
  further offset adds the size of the frame before, and the closing entry carries
  \<open>0xFFFFFFFF\<close> and the position where the frames end, which is the length of the file.
  The offsets are computed from a header of 64 bytes while 76 are written: for the two
  frames of \<open>demo_dir\<close> the first offset is 88 and the closing offset 91, the frames
  lie at bytes 100 to 102 and the file has 103 bytes; at byte 88 lies the second entry
  of the table.
\<close>

theorem C3_sentinel_offset_is_not_file_length:
  "generate_bif demo_settings True demo_dir = (Inr (), Some demo_bif) \<and>
   read_u32 demo_bif 80 = 64 + (8 + 8 * 2) \<and>
   take 2 (drop 88 demo_bif) = [90, 0] \<and>
   read_u32 demo_bif 92 = 0xffffffff \<and>
   read_u32 demo_bif 96 = 91 \<and>
   length demo_bif = 103 \<and>
   drop 100 demo_bif = [1, 2, 3]"
  by code_simp

text \<open>
  Claim C9. The encoder takes exactly the entries of the directory whose names end in
  \<^verbatim>\<open>.jpg\<close>, in sorted order of their names, and nothing else of the directory reaches
  the artifact: the frame count is the number of those entries, the \<open>i\<close>-th index entry
  carries the position \<open>i\<close> and the offset that the sizes of the first \<open>i\<close> of them add
  up to, and the bytes after the table are their contents in that order. The encoder
  returns normally whenever the target can be opened and every packed value fits in 32
  bits, and it gives the same result on the directory with every other entry removed.
\<close>

theorem C9_only_jpg_entries_sorted:
  "bif_images d = sort_key fst (filter (\<lambda>e. endswith (fst e) ''.jpg'') d) \<and>
   map fst (bif_images d) = sort (filter (\<lambda>name. endswith name ''.jpg'') (map fst d)) \<and>
   generate_bif st writable d =
     generate_bif st writable (filter (\<lambda>e. endswith (fst e) ''.jpg'') d) \<and>
   (writable \<and> bif_fits (PLEX_BIF_FRAME_INTERVAL st) (bif_images d) \<longrightarrow>
      (\<exists>bs. generate_bif st writable d = (Inr (), Some bs))) \<and>
   (\<forall>bs. generate_bif st writable d = (Inr (), Some bs) \<longrightarrow>
      read_u32 bs 12 = int (length (filter (\<lambda>e. endswith (fst e) ''.jpg'') d)) \<and>
      (\<forall>i < length (bif_images d).
         read_u32 bs (76 + 8 * i) = int i \<and>
         read_u32 bs (80 + 8 * i) =
           72 + 8 * int (length (bif_images d)) +
           int (length (concat (map snd (take i (bif_images d)))))) \<and>
      read_u32 bs (76 + 8 * length (bif_images d)) = 0xffffffff \<and>
      drop (84 + 8 * length (bif_images d)) bs = concat (map snd (bif_images d)) \<and>
      length bs = 84 + 8 * length (bif_images d) + length (concat (map snd (bif_images d))))"
proof -
  let ?iv = "PLEX_BIF_FRAME_INTERVAL st"
  have 0: "bif_images d = sort_key fst (filter (\<lambda>e. endswith (fst e) ''.jpg'') d)"
    by (simp add: bif_images_def)
  have "map fst (bif_images d) = sort (map fst (filter (\<lambda>e. endswith (fst e) ''.jpg'') d))"
    by (simp add: bif_images_def sort_key_fst_names)
  also have "map fst (filter (\<lambda>e. endswith (fst e) ''.jpg'') d) =
      filter (\<lambda>name. endswith name ''.jpg'') (map fst d)"
    by (simp add: filter_map comp_def)
  finally have 1: "map fst (bif_images d) = sort (filter (\<lambda>name. endswith name ''.jpg'') (map fst d))" .
  have "bif_images (filter (\<lambda>e. endswith (fst e) ''.jpg'') d) = bif_images d"
    by (simp add: bif_images_def)
  then have 2: "generate_bif st writable d =
      generate_bif st writable (filter (\<lambda>e. endswith (fst e) ''.jpg'') d)"
    by (simp add: generate_bif_def)
  have 3: "writable \<and> bif_fits ?iv (bif_images d) \<longrightarrow>
      (\<exists>bs. generate_bif st writable d = (Inr (), Some bs))"
    by (simp add: generate_bif_Inr)
  have 4: "read_u32 bs 12 = int (length (filter (\<lambda>e. endswith (fst e) ''.jpg'') d)) \<and>
      (\<forall>i < length (bif_images d).
         read_u32 bs (76 + 8 * i) = int i \<and>
         read_u32 bs (80 + 8 * i) =
           72 + 8 * int (length (bif_images d)) +
           int (length (concat (map snd (take i (bif_images d)))))) \<and>
      read_u32 bs (76 + 8 * length (bif_images d)) = 0xffffffff \<and>
      drop (84 + 8 * length (bif_images d)) bs = concat (map snd (bif_images d)) \<and>
      length bs = 84 + 8 * length (bif_images d) + length (concat (map snd (bif_images d)))"
    if g: "generate_bif st writable d = (Inr (), Some bs)" for bs
  proof -
    from g have f: "bif_fits ?iv (bif_images d)" and bs: "bs = bif_layout ?iv (bif_images d)"
      by (simp_all add: generate_bif_Inr)
    have l: "length (bif_images d) = length (filter (\<lambda>e. endswith (fst e) ''.jpg'') d)"
      by (simp add: bif_images_def)
    have a: "read_u32 bs 12 = int (length (filter (\<lambda>e. endswith (fst e) ''.jpg'') d))"
      using bif_layout_count [OF f] by (simp add: bs l)
    have b: "read_u32 bs (76 + 8 * i) = int i \<and>
         read_u32 bs (80 + 8 * i) =
           72 + 8 * int (length (bif_images d)) +
           int (length (concat (map snd (take i (bif_images d)))))"
      if "i < length (bif_images d)" for i
      using bif_layout_timestamp [OF f that] bif_layout_offset [OF f that]
      by (simp add: bs payload_size_def)
    have c: "read_u32 bs (76 + 8 * length (bif_images d)) = 0xffffffff"
      using bif_layout_sentinel(1) [OF f] by (simp add: bs)
    have e: "drop (84 + 8 * length (bif_images d)) bs = concat (map snd (bif_images d))"
      using generate_bif_header(3) [OF g] .
    have "int (length bs) =
        84 + 8 * int (length (bif_images d)) + int (length (concat (map snd (bif_images d))))"
      using bif_layout_sentinel(3) [OF f] by (simp add: bs payload_size_def)
    then have h: "length bs =
        84 + 8 * length (bif_images d) + length (concat (map snd (bif_images d)))"
      by linarith
    from a b c e h show ?thesis by blast
  qed
  from 0 1 2 3 4 show ?thesis by blast
qed

text \<open>
  Claim C9 at \<open>demo_dir\<close>, which lists the later frame first: the file \<^verbatim>\<open>notes.txt\<close> is
  left out, the count is 2, and the frames follow in the order of their names.
\<close>

theorem C9_only_jpg_entries_sorted_witness:
  "map fst (bif_images demo_dir) = [''0000000000.jpg'', ''0000000010.jpg''] \<and>
   generate_bif demo_settings True demo_dir = (Inr (), Some demo_bif) \<and>
   read_u32 demo_bif 12 = 2 \<and>
   read_u32 demo_bif 80 = 88 \<and> read_u32 demo_bif 88 = 90 \<and>
   drop 100 demo_bif = [1, 2, 3] \<and>
   length demo_bif = 103"
proof -
  have n: "sort (filter (\<lambda>name. endswith name ''.jpg'') (map fst demo_dir)) =
      [''0000000000.jpg'', ''0000000010.jpg'']"
    by code_simp
  have g: "generate_bif demo_settings True demo_dir = (Inr (), Some demo_bif)"
    by code_simp
  have i: "bif_images demo_dir = [(''0000000000.jpg'', [1, 2]), (''0000000010.jpg'', [3])]"
    "length (filter (\<lambda>e. endswith (fst e) ''.jpg'') demo_dir) = 2"
    by code_simp+
  note c = C9_only_jpg_entries_sorted [of demo_dir demo_settings True]
  from c have "map fst (bif_images demo_dir) =
      sort (filter (\<lambda>name. endswith name ''.jpg'') (map fst demo_dir))"
    by blast
  with n have 1: "map fst (bif_images demo_dir) = [''0000000000.jpg'', ''0000000010.jpg'']"
    by (simp only:)
  from c g have r: "read_u32 demo_bif 12 = int (length (filter (\<lambda>e. endswith (fst e) ''.jpg'') demo_dir))"
    and t: "\<forall>i < length (bif_images demo_dir).
         read_u32 demo_bif (76 + 8 * i) = int i \<and>
         read_u32 demo_bif (80 + 8 * i) =
           72 + 8 * int (length (bif_images demo_dir)) +
           int (length (concat (map snd (take i (bif_images demo_dir)))))"
    and p: "drop (84 + 8 * length (bif_images demo_dir)) demo_bif =
         concat (map snd (bif_images demo_dir))"
    and l: "length demo_bif = 84 + 8 * length (bif_images demo_dir) +
         length (concat (map snd (bif_images demo_dir)))"
    by blast+
  from r i have 2: "read_u32 demo_bif 12 = 2" by simp
  from t [rule_format, of 0] t [rule_format, of 1] i
  have 3: "read_u32 demo_bif 80 = 88" "read_u32 demo_bif 88 = 90" by simp_all
  from p l i have 4: "drop 100 demo_bif = [1, 2, 3]" "length demo_bif = 103" by simp_all
  from 1 g 2 3 4 show ?thesis by simp
qed

text \<open>
  Claim C10. The timestamp field of the \<open>i\<close>-th entry of the index table, which the
  encoder writes from byte 76 on, is \<open>i\<close>: the position of the frame in the sorted
  listing, whatever number its name carries. The encoder returns normally whenever the
  target can be opened and every packed value fits in 32 bits.
\<close>

theorem C10_timestamps_are_positions:
  "(writable \<and> bif_fits (PLEX_BIF_FRAME_INTERVAL st) (bif_images d) \<longrightarrow>
      (\<exists>bs. generate_bif st writable d = (Inr (), Some bs))) \<and>
   (\<forall>bs. generate_bif st writable d = (Inr (), Some bs) \<longrightarrow>
      (\<forall>i < length (bif_images d). read_u32 bs (76 + 8 * i) = int i))"
  by (simp add: generate_bif_Inr bif_layout_timestamp)

text \<open>
  Claim C10 at \<open>demo_dir\<close>: the frame of second 5 is missing, and the frame of second 10
  gets the timestamp 1.
\<close>

theorem C10_timestamps_are_positions_witness:
  "generate_bif demo_settings True demo_dir = (Inr (), Some demo_bif) \<and>
   map fst (bif_images demo_dir) = [''0000000000.jpg'', ''0000000010.jpg''] \<and>
   read_u32 demo_bif 76 = 0 \<and> read_u32 demo_bif 84 = 1"
proof -
  have g: "generate_bif demo_settings True demo_dir = (Inr (), Some demo_bif)"
    by code_simp
  have n: "map fst (bif_images demo_dir) = [''0000000000.jpg'', ''0000000010.jpg'']"
    by code_simp
  then have l: "length (bif_images demo_dir) = 2"
    by (metis length_map length_Cons list.size(3) One_nat_def Suc_1)
  from C10_timestamps_are_positions [of True demo_settings demo_dir] g l
  have a: "\<forall>i<2. read_u32 demo_bif (76 + 8 * i) = int i" by simp
  from a [rule_format, of 0] a [rule_format, of 1]
  have "read_u32 demo_bif 76 = 0" "read_u32 demo_bif 84 = 1" by simp_all
  with g n show ?thesis by simp
qed

subsection \<open>Accelerator admission\<close>

text \<open>
  Claim C4. With an available accelerator, hardware acceleration is to be selected
  exactly when the contention estimate is below \<open>GPU_THREADS\<close> or \<open>CPU_THREADS\<close> is zero.
  On the NVIDIA branch the estimate is computed with \<^verbatim>\<open>process.command\<close> on entries that
  are dictionaries, so with any process listed the extraction raises before either path
  is taken. At the input below one transcoder process is listed under a budget of 4: on
  the NVIDIA branch the job ends in the handler of the extraction step, the transcoder is
  never started and no artifact is written; on the AMD branch, which reads
  \<^verbatim>\<open>process['name']\<close>, the same job selects the accelerator and ends \<open>Done\<close>.
\<close>

theorem C4_nvidia_listing_fails_the_job:
  "fst (process_media_part demo_settings None (Some ''NVIDIA'') busy_env demo_part demo_world) =
     ExtractionFailed AttributeError \<and>
   transcoder_runs (snd (process_media_part demo_settings None (Some ''NVIDIA'') busy_env
      demo_part demo_world)) = [] \<and>
   files (snd (process_media_part demo_settings None (Some ''NVIDIA'') busy_env demo_part
      demo_world)) ''/media/localhost/a/bc.bundle/Contents/Indexes/index-sd.bif'' = None \<and>
   fst (process_media_part demo_settings None (Some ''/dev/dri/renderD128'') busy_env demo_part
      demo_world) = Done \<and>
   metrics (snd (process_media_part demo_settings None (Some ''/dev/dri/renderD128'') busy_env
      demo_part demo_world)) = [\<lparr>video_file = ''/v.mkv'', hw_accel = True\<rparr>]"
  by code_simp

subsection \<open>Frame names\<close>

text \<open>
  Claim C5, as the code has it. At a zero interval \<^verbatim>\<open>generate_images\<close> raises before the
  transcoder is started, so no frame exists. Otherwise take a positive interval with the
  last timestamp below \<open>10 ^ 10\<close>, an accelerator branch that returns, a transcoder that
  exits with status 0, and an output folder whose path holds no glob metacharacter and
  which holds no file matching \<^verbatim>\<open>img*.jpg\<close> when the transcoder starts. Then
  \<^verbatim>\<open>generate_images\<close> returns normally; the frame the transcoder wrote under ordinal \<open>k\<close>
  (from 1) gets the timestamp \<open>(k - 1) * interval\<close> and ends up under that timestamp in
  exactly ten decimal digits followed by \<^verbatim>\<open>.jpg\<close>; the folder then holds these files,
  after the files it held before under other names; the order of two such names is the
  order of their timestamps; and the encoder takes the renamed frames in that order.
\<close>

theorem C5_reindexing_in_range:
  "(PLEX_BIF_FRAME_INTERVAL st = 0 \<longrightarrow>
      generate_images st video out gpu env w = (Inl ZeroDivisionError, w)) \<and>
   (0 < PLEX_BIF_FRAME_INTERVAL st \<and>
    (int (length (frames env)) - 1) * PLEX_BIF_FRAME_INTERVAL st < 10 ^ 10 \<and>
    \<not> has_magic out \<and> dirs w out = Some d \<and> (\<forall>e \<in> set d. \<not> glob_img (fst e)) \<and>
    returncode env = 0 \<and> hw_accel_used st gpu (gpu_processes env) = Inr hw \<longrightarrow>
      renamed_files (PLEX_BIF_FRAME_INTERVAL st) 1 (frames env) =
        map (\<lambda>k. (fmt_010d ((int k - 1) * PLEX_BIF_FRAME_INTERVAL st) @ ''.jpg'',
                   frames env ! (k - 1)))
            [1..<Suc (length (frames env))] \<and>
      (\<exists>w'. generate_images st video out gpu env w = (Inr (), w') \<and>
         dirs w' out =
           Some (filter (\<lambda>e. fst e \<notin>
                          fst ` set (renamed_files (PLEX_BIF_FRAME_INTERVAL st) 1 (frames env))) d @
                 renamed_files (PLEX_BIF_FRAME_INTERVAL st) 1 (frames env))) \<and>
      bif_images (renamed_files (PLEX_BIF_FRAME_INTERVAL st) 1 (frames env)) =
        renamed_files (PLEX_BIF_FRAME_INTERVAL st) 1 (frames env) \<and>
      (\<forall>k. 1 \<le> k \<and> k \<le> length (frames env) \<longrightarrow>
         frame_second (PLEX_BIF_FRAME_INTERVAL st) (img_name k) =
           Inr ((int k - 1) * PLEX_BIF_FRAME_INTERVAL st) \<and>
         new_name (PLEX_BIF_FRAME_INTERVAL st) (img_name k) =
           Inr (fmt_010d ((int k - 1) * PLEX_BIF_FRAME_INTERVAL st) @ ''.jpg'') \<and>
         length (fmt_010d ((int k - 1) * PLEX_BIF_FRAME_INTERVAL st)) = 10 \<and>
         (\<forall>c \<in> set (fmt_010d ((int k - 1) * PLEX_BIF_FRAME_INTERVAL st)). is_digit c) \<and>
         int (dec_val (fmt_010d ((int k - 1) * PLEX_BIF_FRAME_INTERVAL st))) =
           (int k - 1) * PLEX_BIF_FRAME_INTERVAL st) \<and>
      (\<forall>k k'. 1 \<le> k \<and> k \<le> length (frames env) \<and> 1 \<le> k' \<and> k' \<le> length (frames env) \<longrightarrow>
         (fmt_010d ((int k - 1) * PLEX_BIF_FRAME_INTERVAL st) @ ''.jpg'' <
            fmt_010d ((int k' - 1) * PLEX_BIF_FRAME_INTERVAL st) @ ''.jpg'' \<longleftrightarrow>
          (int k - 1) * PLEX_BIF_FRAME_INTERVAL st < (int k' - 1) * PLEX_BIF_FRAME_INTERVAL st)))"
proof (intro conjI impI)
  assume "PLEX_BIF_FRAME_INTERVAL st = 0"
  then show "generate_images st video out gpu env w = (Inl ZeroDivisionError, w)"
    by (rule generate_images_zero_interval)
next
  let ?iv = "PLEX_BIF_FRAME_INTERVAL st"
  let ?n = "length (frames env)"
  let ?t = "\<lambda>k. (int k - 1) * ?iv"
  let ?d = "renamed_files ?iv 1 (frames env)"
  assume a: "0 < ?iv \<and> (int ?n - 1) * ?iv < 10 ^ 10 \<and> \<not> has_magic out \<and>
    dirs w out = Some d \<and> (\<forall>e \<in> set d. \<not> glob_img (fst e)) \<and>
    returncode env = 0 \<and> hw_accel_used st gpu (gpu_processes env) = Inr hw"
  then have iv: "0 < ?iv" and top: "(int ?n - 1) * ?iv < 10 ^ 10" by simp_all
  have range: "0 \<le> ?t k \<and> ?t k < 10 ^ 10" if "1 \<le> k" "k \<le> ?n" for k
  proof -
    from that have "int k - 1 \<le> int ?n - 1" by simp
    with iv have le: "?t k \<le> (int ?n - 1) * ?iv" by (intro mult_right_mono) simp_all
    from that iv have "0 \<le> ?t k" by simp
    with le top show ?thesis by linarith
  qed
  have g: "generate_images st video out gpu env w =
      (Inr (), w\<lparr>transcoder_runs := transcoder_runs w @ [video],
                 dirs := (dirs w)(out \<mapsto> filter (\<lambda>e. fst e \<notin> fst ` set ?d) d @ ?d),
                 metrics := metrics w @ [\<lparr>video_file = video, hw_accel = hw\<rparr>]\<rparr>)"
    using a by (intro generate_images_renames) simp_all
  show m: "?d = map (\<lambda>k. (fmt_010d (?t k) @ ''.jpg'', frames env ! (k - 1))) [1..<Suc ?n]"
    using renamed_files_map [of ?iv 1 "frames env"] by simp
  have "sorted (map fst ?d)"
    using iv top by (intro renamed_files_sorted) simp_all
  moreover have "\<forall>e \<in> set ?d. endswith (fst e) ''.jpg''"
    by (auto simp: renamed_files_map simp del: upt_Suc)
  ultimately show "bif_images ?d = ?d" by (intro bif_images_sorted_jpg)
  from g
  show "\<exists>w'. generate_images st video out gpu env w = (Inr (), w') \<and>
         dirs w' out = Some (filter (\<lambda>e. fst e \<notin> fst ` set ?d) d @ ?d)"
    by simp
  show "\<forall>k. 1 \<le> k \<and> k \<le> ?n \<longrightarrow>
         frame_second ?iv (img_name k) = Inr (?t k) \<and>
         new_name ?iv (img_name k) = Inr (fmt_010d (?t k) @ ''.jpg'') \<and>
         length (fmt_010d (?t k)) = 10 \<and>
         (\<forall>c \<in> set (fmt_010d (?t k)). is_digit c) \<and>
         int (dec_val (fmt_010d (?t k))) = ?t k"
  proof (intro allI impI)
    fix k assume k: "1 \<le> k \<and> k \<le> ?n"
    with range have r: "0 \<le> ?t k" "?t k < 10 ^ 10" by simp_all
    from fmt_010d_digits [OF r]
    show "frame_second ?iv (img_name k) = Inr (?t k) \<and>
         new_name ?iv (img_name k) = Inr (fmt_010d (?t k) @ ''.jpg'') \<and>
         length (fmt_010d (?t k)) = 10 \<and>
         (\<forall>c \<in> set (fmt_010d (?t k)). is_digit c) \<and>
         int (dec_val (fmt_010d (?t k))) = ?t k"
      by (simp add: frame_second_def frame_no_img_name new_name_img_name)
  qed
  show "\<forall>k k'. 1 \<le> k \<and> k \<le> ?n \<and> 1 \<le> k' \<and> k' \<le> ?n \<longrightarrow>
         (fmt_010d (?t k) @ ''.jpg'' < fmt_010d (?t k') @ ''.jpg'' \<longleftrightarrow> ?t k < ?t k')"
  proof (intro allI impI)
    fix k k' assume k: "1 \<le> k \<and> k \<le> ?n \<and> 1 \<le> k' \<and> k' \<le> ?n"
    with range [of k] range [of k']
    show "fmt_010d (?t k) @ ''.jpg'' < fmt_010d (?t k') @ ''.jpg'' \<longleftrightarrow> ?t k < ?t k'"
      by (intro renamed_name_less_iff) simp_all
  qed
qed

text \<open>
  Against claim C5 as stated. \<^verbatim>\<open>:010d\<close> is a minimal width: at an interval of 5 the
  frames 400000001 and 2000000001 get names of ten and eleven characters that sort
  against their timestamps; at an interval of -5 the names of frames 2 and 3 have the
  same width and sort against their timestamps, and the encoder takes the three frames
  of such a job in the order 2, 3, 1. The loop renames what the glob returns: with a file
  \<^verbatim>\<open>img.jpg\<close> left in the folder, \<^verbatim>\<open>int('')\<close> raises and the extraction ends with
  \<^verbatim>\<open>ValueError\<close>; and in the folder \<^verbatim>\<open>/tmp/[x]/abc\<close>, whose path as a pattern names
  \<^verbatim>\<open>/tmp/x/abc\<close>, a directory the machine does not have, the glob returns nothing and
  the two frames keep the names the transcoder gave them.
\<close>

theorem C5_names_out_of_range:
  "new_name 5 (img_name 400000001) = Inr ''2000000000.jpg'' \<and>
   new_name 5 (img_name 2000000001) = Inr ''10000000000.jpg'' \<and>
   (int 400000001 - 1) * 5 < (int 2000000001 - 1) * (5 :: int) \<and>
   ''10000000000.jpg'' < ''2000000000.jpg'' \<and>
   new_name (- 5) (img_name 2) = Inr ''-000000005.jpg'' \<and>
   new_name (- 5) (img_name 3) = Inr ''-000000010.jpg'' \<and>
   (int 3 - 1) * (- 5) < (int 2 - 1) * (- 5 :: int) \<and>
   ''-000000005.jpg'' < ''-000000010.jpg'' \<and>
   dirs (snd (generate_images (demo_settings\<lparr>PLEX_BIF_FRAME_INTERVAL := - 5\<rparr>) ''/v.mkv''
          ''/tmp/abc'' None (demo_env\<lparr>frames := [[1], [2], [3]]\<rparr>)
          (makedirs ''/tmp/abc'' demo_world))) ''/tmp/abc'' =
     Some [(''0000000000.jpg'', [1]), (''-000000005.jpg'', [2]), (''-000000010.jpg'', [3])] \<and>
   bif_images [(''0000000000.jpg'', [1]), (''-000000005.jpg'', [2]), (''-000000010.jpg'', [3])] =
     [(''-000000005.jpg'', [2]), (''-000000010.jpg'', [3]), (''0000000000.jpg'', [1])] \<and>
   fst (generate_images demo_settings ''/v.mkv'' ''/tmp/abc'' None demo_env
          (demo_world\<lparr>dirs := [''/tmp/abc'' \<mapsto> [(''img.jpg'', [9])]]\<rparr>)) = Inl ValueError \<and>
   fst (generate_images demo_settings ''/v.mkv'' ''/tmp/[x]/abc'' None demo_env
          (makedirs ''/tmp/[x]/abc'' demo_world)) = Inr () \<and>
   dirs (snd (generate_images demo_settings ''/v.mkv'' ''/tmp/[x]/abc'' None demo_env
          (makedirs ''/tmp/[x]/abc'' demo_world))) ''/tmp/[x]/abc'' =
     Some [(''img-000001.jpg'', [1, 2]), (''img-000002.jpg'', [3])]"
proof -
  have "new_name 5 (img_name 400000001) = Inr ''2000000000.jpg'' \<and>
   new_name 5 (img_name 2000000001) = Inr ''10000000000.jpg'' \<and>
   (int 400000001 - 1) * 5 < (int 2000000001 - 1) * (5 :: int) \<and>
   ''10000000000.jpg'' < ''2000000000.jpg'' \<and>
   new_name (- 5) (img_name 2) = Inr ''-000000005.jpg'' \<and>
   new_name (- 5) (img_name 3) = Inr ''-000000010.jpg'' \<and>
   (int 3 - 1) * (- 5) < (int 2 - 1) * (- 5 :: int) \<and>
   ''-000000005.jpg'' < ''-000000010.jpg''"
    by (simp add: new_name_img_name fmt_010d_def zfill_def dec.simps digit_char_def)
       (simp add: eval_nat_numeral)
  moreover have "dirs (snd (generate_images (demo_settings\<lparr>PLEX_BIF_FRAME_INTERVAL := - 5\<rparr>) ''/v.mkv''
          ''/tmp/abc'' None (demo_env\<lparr>frames := [[1], [2], [3]]\<rparr>)
          (makedirs ''/tmp/abc'' demo_world))) ''/tmp/abc'' =
     Some [(''0000000000.jpg'', [1]), (''-000000005.jpg'', [2]), (''-000000010.jpg'', [3])]"
    by code_simp
  moreover have "bif_images [(''0000000000.jpg'', [1 :: byte]), (''-000000005.jpg'', [2]), (''-000000010.jpg'', [3])] =
     [(''-000000005.jpg'', [2]), (''-000000010.jpg'', [3]), (''0000000000.jpg'', [1])]"
    by code_simp
  moreover have "fst (generate_images demo_settings ''/v.mkv'' ''/tmp/abc'' None demo_env
          (demo_world\<lparr>dirs := [''/tmp/abc'' \<mapsto> [(''img.jpg'', [9])]]\<rparr>)) = Inl ValueError"
    by code_simp
  moreover have "fst (generate_images demo_settings ''/v.mkv'' ''/tmp/[x]/abc'' None demo_env
          (makedirs ''/tmp/[x]/abc'' demo_world)) = Inr ()"
    by code_simp
  moreover have "dirs (snd (generate_images demo_settings ''/v.mkv'' ''/tmp/[x]/abc'' None demo_env
          (makedirs ''/tmp/[x]/abc'' demo_world))) ''/tmp/[x]/abc'' =
     Some [(''img-000001.jpg'', [1, 2]), (''img-000002.jpg'', [3])]"
    by code_simp
  ultimately show ?thesis by blast
qed

text \<open>
  Claim C5 at an interval of 5 and the two frames of the concrete transcoder, in a folder
  that an interrupted job has left with a stale frame and a file of another kind: the
  stale frame of second 5 is replaced.
\<close>

theorem C5_reindexing_in_range_witness:
  "fst (generate_images demo_settings ''/v.mkv'' ''/tmp/abc'' None demo_env
      (demo_world\<lparr>dirs := [''/tmp/abc'' \<mapsto> [(''notes.txt'', [9]), (''0000000005.jpg'', [7])]]\<rparr>)) =
     Inr () \<and>
   dirs (snd (generate_images demo_settings ''/v.mkv'' ''/tmp/abc'' None demo_env
      (demo_world\<lparr>dirs := [''/tmp/abc'' \<mapsto> [(''notes.txt'', [9]), (''0000000005.jpg'', [7])]]\<rparr>)))
      ''/tmp/abc'' =
     Some [(''notes.txt'', [9]), (''0000000000.jpg'', [1, 2]), (''0000000005.jpg'', [3])] \<and>
   bif_images [(''0000000000.jpg'', [1, 2]), (''0000000005.jpg'', [3])] =
     [(''0000000000.jpg'', [1, 2]), (''0000000005.jpg'', [3])] \<and>
   frame_second 5 (img_name 2) = Inr 5 \<and>
   ''0000000000.jpg'' < ''0000000005.jpg''"
proof -
  let ?d = "[(''notes.txt'', [9 :: byte]), (''0000000005.jpg'', [7])]"
  let ?w = "demo_world\<lparr>dirs := [''/tmp/abc'' \<mapsto> ?d]\<rparr>"
  let ?g = "generate_images demo_settings ''/v.mkv'' ''/tmp/abc'' None demo_env ?w"
  let ?r = "[(''0000000000.jpg'', [1, 2 :: byte]), (''0000000005.jpg'', [3])]"
  have h: "0 < PLEX_BIF_FRAME_INTERVAL demo_settings \<and>
      (int (length (frames demo_env)) - 1) * PLEX_BIF_FRAME_INTERVAL demo_settings < 10 ^ 10 \<and>
      \<not> has_magic ''/tmp/abc'' \<and> dirs ?w ''/tmp/abc'' = Some ?d \<and>
      (\<forall>e \<in> set ?d. \<not> glob_img (fst e)) \<and> returncode demo_env = 0 \<and>
      hw_accel_used demo_settings None (gpu_processes demo_env) = Inr False"
    by code_simp
  have e: "PLEX_BIF_FRAME_INTERVAL demo_settings = 5" "length (frames demo_env) = 2"
    "renamed_files 5 1 (frames demo_env) = ?r"
    "filter (\<lambda>e. fst e \<notin> fst ` set ?r) ?d = [(''notes.txt'', [9])]"
    "fmt_010d ((int 1 - 1) * 5) @ ''.jpg'' = ''0000000000.jpg''"
    "fmt_010d ((int 2 - 1) * 5) @ ''.jpg'' = ''0000000005.jpg''"
    by code_simp+
  note c = C5_reindexing_in_range [of demo_settings "''/v.mkv''" "''/tmp/abc''" None demo_env ?w ?d False]
  from c h obtain w' where g: "?g = (Inr (), w')"
    and d: "dirs w' ''/tmp/abc'' =
      Some (filter (\<lambda>e. fst e \<notin>
               fst ` set (renamed_files (PLEX_BIF_FRAME_INTERVAL demo_settings) 1 (frames demo_env))) ?d @
            renamed_files (PLEX_BIF_FRAME_INTERVAL demo_settings) 1 (frames demo_env))"
    by blast
  from d have d': "dirs w' ''/tmp/abc'' =
      Some [(''notes.txt'', [9]), (''0000000000.jpg'', [1, 2]), (''0000000005.jpg'', [3])]"
    by (simp only: e) simp
  from c h have "bif_images (renamed_files (PLEX_BIF_FRAME_INTERVAL demo_settings) 1 (frames demo_env)) =
      renamed_files (PLEX_BIF_FRAME_INTERVAL demo_settings) 1 (frames demo_env)"
    by blast
  then have 3: "bif_images ?r = ?r"
    by (simp only: e)
  from c h have k: "\<forall>k. 1 \<le> k \<and> k \<le> length (frames demo_env) \<longrightarrow>
      frame_second (PLEX_BIF_FRAME_INTERVAL demo_settings) (img_name k) =
        Inr ((int k - 1) * PLEX_BIF_FRAME_INTERVAL demo_settings)"
    by blast
  from k [rule_format, of 2] e(1,2) have 4: "frame_second 5 (img_name 2) = Inr 5"
    by simp
  from c h have o: "\<forall>k k'. 1 \<le> k \<and> k \<le> length (frames demo_env) \<and> 1 \<le> k' \<and>
        k' \<le> length (frames demo_env) \<longrightarrow>
      (fmt_010d ((int k - 1) * PLEX_BIF_FRAME_INTERVAL demo_settings) @ ''.jpg'' <
         fmt_010d ((int k' - 1) * PLEX_BIF_FRAME_INTERVAL demo_settings) @ ''.jpg'' \<longleftrightarrow>
       (int k - 1) * PLEX_BIF_FRAME_INTERVAL demo_settings <
         (int k' - 1) * PLEX_BIF_FRAME_INTERVAL demo_settings)"
    by blast
  from o [rule_format, of 1 2] e(2)
  have "fmt_010d ((int 1 - 1) * PLEX_BIF_FRAME_INTERVAL demo_settings) @ ''.jpg'' <
      fmt_010d ((int 2 - 1) * PLEX_BIF_FRAME_INTERVAL demo_settings) @ ''.jpg''"
    by (simp add: e(1))
  then have 5: "''0000000000.jpg'' < ''0000000005.jpg''"
    by (simp only: e)
  from g d' 3 4 5 show ?thesis by simp
qed

subsection \<open>Existing targets\<close>

text \<open>
  Claim C6. A job whose target artifact exists ends \<open>Skipped\<close> and leaves the machine
  as it was: no directory is made, the transcoder is not started, nothing is encoded and
  no metric is inserted. A job that ends \<open>Done\<close> has written its target, so running it
  again, whatever the collaborators would do the second time, is such a skip.
\<close>

theorem C6_existing_target_is_skipped:
  "(part_hash part = Some h \<and> index_bif st h \<in> dom (files w) \<longrightarrow>
      process_media_part st argv1 gpu env part w = (Skipped, w)) \<and>
   (fst (process_media_part st argv1 gpu env part w) = Done \<longrightarrow>
      process_media_part st argv1 gpu env' part (snd (process_media_part st argv1 gpu env part w)) =
        (Skipped, snd (process_media_part st argv1 gpu env part w)))"
proof (intro conjI impI)
  assume "part_hash part = Some h \<and> index_bif st h \<in> dom (files w)"
  then show "process_media_part st argv1 gpu env part w = (Skipped, w)"
    by (simp add: process_media_part_target_exists)
next
  let ?r = "process_media_part st argv1 gpu env part w"
  assume d: "fst ?r = Done"
  obtain h where h: "part_hash part = Some h"
    using d by (cases "part_hash part") (auto simp: process_media_part_def)
  have r: "?r = (Done, snd ?r)" using d by (cases ?r) simp
  have ns: "Done \<noteq> Skipped" by simp
  obtain w2 w3 and r2 r3 :: "error + unit" where
    b: "run_generate_bif st (index_bif st h) (tmp_path st h) env w2 = (r3, w3)"
    and o: "Done = (case r2 of Inl e \<Rightarrow> ExtractionFailed e
                 | Inr u \<Rightarrow> (case r3 of Inl e \<Rightarrow> EncodeFailed e | Inr u \<Rightarrow> Done))"
    and w': "snd ?r = rmtree (tmp_path st h) (case r2 of Inl e \<Rightarrow> w2 | Inr u \<Rightarrow>
            (case r3 of Inl e \<Rightarrow> (if index_bif st h \<in> dom (files w3)
                                   then os_remove (index_bif st h) w3 else w3)
                      | Inr u \<Rightarrow> w3))"
    by (rule process_media_part_run [OF h r ns]) blast
  from o obtain u where "r3 = Inr u" and w3: "snd ?r = rmtree (tmp_path st h) w3"
    using w' by (auto split: sum.splits)
  with b run_generate_bif_Inr have "files w3 (index_bif st h) \<noteq> None" by blast
  with w3 have "index_bif st h \<in> dom (files (snd ?r))" by auto
  with h show "process_media_part st argv1 gpu env' part (snd ?r) = (Skipped, snd ?r)"
    by (rule process_media_part_target_exists)
qed

text \<open>
  Claim C6 at the concrete inputs: the first run ends \<open>Done\<close>, the second is skipped.
\<close>

theorem C6_existing_target_is_skipped_witness:
  "fst (process_media_part demo_settings None None demo_env demo_part demo_world) = Done \<and>
   index_bif demo_settings ''abc'' \<in>
     dom (files (snd (process_media_part demo_settings None None demo_env demo_part demo_world))) \<and>
   process_media_part demo_settings None None demo_env demo_part
       (snd (process_media_part demo_settings None None demo_env demo_part demo_world)) =
     (Skipped, snd (process_media_part demo_settings None None demo_env demo_part demo_world))"
proof -
  let ?w = "snd (process_media_part demo_settings None None demo_env demo_part demo_world)"
  have d: "fst (process_media_part demo_settings None None demo_env demo_part demo_world) = Done"
    by code_simp
  have t: "index_bif demo_settings ''abc'' \<in> dom (files ?w)"
    by code_simp
  have h: "part_hash demo_part = Some ''abc''"
    by (simp add: demo_part_def)
  from C6_existing_target_is_skipped
         [of demo_part "''abc''" demo_settings ?w None None demo_env demo_env] d t h
  show ?thesis by simp
qed

subsection \<open>Metrics\<close>

text \<open>
  Claim C7, as the code has it. The metric is inserted at the end of \<^verbatim>\<open>generate_images\<close>,
  before encoding starts: a job that is skipped or whose extraction raises inserts none; a
  job that goes on to encoding has inserted exactly one if the transcoder exited with
  status 0, and none otherwise, whether encoding then succeeds or fails.
\<close>

theorem C7_metric_follows_extraction:
  assumes "process_media_part st argv1 gpu env part w = (out, w')"
  shows "(out = Skipped \<or> (\<exists>e. out = ExtractionFailed e) \<longrightarrow> metrics w' = metrics w) \<and>
         (out = Done \<or> (\<exists>e. out = EncodeFailed e) \<longrightarrow>
            (\<exists>hw. hw_accel_used st gpu (gpu_processes env) = Inr hw \<and>
               metrics w' = metrics w @
                 (if returncode env = 0
                  then [\<lparr>video_file = part_file part, hw_accel = hw\<rparr>]
                  else [])))"
proof (cases "out = Skipped")
  case True
  with assms have "w' = w"
    by (auto simp: process_media_part_def split: option.splits if_splits prod.splits sum.splits)
  with True show ?thesis by simp
next
  case False
  with assms obtain h where h: "part_hash part = Some h"
    by (cases "part_hash part") (auto simp: process_media_part_def)
  let ?g = "generate_images st (part_file part) (tmp_path st h) gpu env (makedirs (tmp_path st h) w)"
  have mk: "metrics (makedirs (tmp_path st h) w) = metrics w"
    by (simp add: makedirs_def split: option.splits)
  obtain w2 w3 and r2 r3 :: "error + unit" where
    g: "?g = (r2, w2)"
    and b: "run_generate_bif st (index_bif st h) (tmp_path st h) env w2 = (r3, w3)"
    and o: "out = (case r2 of Inl e \<Rightarrow> ExtractionFailed e
                 | Inr u \<Rightarrow> (case r3 of Inl e \<Rightarrow> EncodeFailed e | Inr u \<Rightarrow> Done))"
    and w': "w' = rmtree (tmp_path st h) (case r2 of Inl e \<Rightarrow> w2 | Inr u \<Rightarrow>
            (case r3 of Inl e \<Rightarrow> (if index_bif st h \<in> dom (files w3)
                                   then os_remove (index_bif st h) w3 else w3)
                      | Inr u \<Rightarrow> w3))"
    by (rule process_media_part_run [OF h assms False]) blast
  have m2: "metrics w2 = metrics w @
       (if r2 = Inr () \<and> returncode env = 0
        then [\<lparr>video_file = part_file part,
                hw_accel = (hw_accel_used st gpu (gpu_processes env) = Inr True)\<rparr>]
        else [])"
    using generate_images_metrics [of st "part_file part" "tmp_path st h" gpu env
        "makedirs (tmp_path st h) w"] g mk by simp
  have m3: "metrics w3 = metrics w2"
    using run_generate_bif_metrics [of st "index_bif st h" "tmp_path st h" env w2] b by simp
  have a: "\<exists>hw. hw_accel_used st gpu (gpu_processes env) = Inr hw" if "r2 = Inr ()"
    using generate_images_Inr_accel [of st "part_file part" "tmp_path st h" gpu env
        "makedirs (tmp_path st h) w" "()"] g that by simp
  show ?thesis
  proof (cases r2)
    case (Inl e)
    with o w' m2 show ?thesis by simp
  next
    case (Inr u)
    with a obtain hw where hw: "hw_accel_used st gpu (gpu_processes env) = Inr hw" by auto
    with Inr m2 have "metrics w2 = metrics w @
        (if returncode env = 0 then [\<lparr>video_file = part_file part, hw_accel = hw\<rparr>] else [])"
      by simp
    with Inr o w' m3 hw show ?thesis by (auto split: sum.splits)
  qed
qed

text \<open>
  Against claim C7 as stated: the transcoder succeeds, the target cannot be opened for
  writing, the job ends in the handler of the encoding step, and its metric is in the
  table.
\<close>

theorem C7_metric_with_failed_encoding:
  "fst (process_media_part demo_settings None None (demo_env\<lparr>target_writable := False\<rparr>)
          demo_part demo_world) = EncodeFailed PermissionError \<and>
   metrics (snd (process_media_part demo_settings None None (demo_env\<lparr>target_writable := False\<rparr>)
          demo_part demo_world)) = [\<lparr>video_file = ''/v.mkv'', hw_accel = False\<rparr>]"
  by code_simp

text \<open>
  Claim C7 at the concrete inputs: the job ends \<open>Done\<close> with one metric.
\<close>

theorem C7_metric_follows_extraction_witness:
  "process_media_part demo_settings None None demo_env demo_part demo_world =
     (Done, snd (process_media_part demo_settings None None demo_env demo_part demo_world)) \<and>
   metrics (snd (process_media_part demo_settings None None demo_env demo_part demo_world)) =
     [\<lparr>video_file = ''/v.mkv'', hw_accel = False\<rparr>]"
proof -
  let ?r = "process_media_part demo_settings None None demo_env demo_part demo_world"
  have d: "fst ?r = Done" by code_simp
  then have r: "?r = (Done, snd ?r)" by (cases ?r) simp
  have e: "returncode demo_env = 0" "part_file demo_part = ''/v.mkv''"
    "metrics demo_world = []" "hw_accel_used demo_settings None (gpu_processes demo_env) = Inr False"
    by (simp_all add: demo_env_def demo_part_def demo_world_def hw_accel_used_def)
  from C7_metric_follows_extraction [OF r] e r show ?thesis by auto
qed

subsection \<open>Cleaning up\<close>

text \<open>
  Claim C8. A job whose encoding step raises leaves no file at the target path. A job
  that is skipped returns before its temporary directory is made and changes nothing;
  every other job ends with that directory removed: after a failed extraction, after a
  failed encoding and after success.
\<close>

theorem C8_failed_encoding_leaves_nothing:
  assumes "process_media_part st argv1 gpu env part w = (out, w')"
  shows "(out = Skipped \<longrightarrow> w' = w) \<and>
         (\<forall>h. part_hash part = Some h \<and> out \<noteq> Skipped \<longrightarrow>
            dirs w' (tmp_path st h) = None \<and>
            (\<forall>e. out = EncodeFailed e \<longrightarrow> files w' (index_bif st h) = None))"
proof (intro conjI allI impI)
  assume "out = Skipped"
  with assms show "w' = w"
    by (auto simp: process_media_part_def split: option.splits if_splits prod.splits sum.splits)
next
  fix h
  assume a: "part_hash part = Some h \<and> out \<noteq> Skipped"
  then have h: "part_hash part = Some h" and ns: "out \<noteq> Skipped" by simp_all
  obtain w2 w3 and r2 r3 :: "error + unit" where
    o: "out = (case r2 of Inl e \<Rightarrow> ExtractionFailed e
                 | Inr u \<Rightarrow> (case r3 of Inl e \<Rightarrow> EncodeFailed e | Inr u \<Rightarrow> Done))"
    and w': "w' = rmtree (tmp_path st h) (case r2 of Inl e \<Rightarrow> w2 | Inr u \<Rightarrow>
            (case r3 of Inl e \<Rightarrow> (if index_bif st h \<in> dom (files w3)
                                   then os_remove (index_bif st h) w3 else w3)
                      | Inr u \<Rightarrow> w3))"
    by (rule process_media_part_run [OF h assms ns]) blast
  from w' show "dirs w' (tmp_path st h) = None" by simp
  fix e
  assume "out = EncodeFailed e"
  with o w' show "files w' (index_bif st h) = None"
    by (auto split: sum.splits)
qed

text \<open>
  Claim C8 at an interval of -1: the encoder raises on the third field after 16 bytes
  are in the file; the job leaves neither that file nor the temporary directory.
\<close>

theorem C8_failed_encoding_leaves_nothing_witness:
  "generate_bif (demo_settings\<lparr>PLEX_BIF_FRAME_INTERVAL := - 1\<rparr>) True
       [(''0000000000.jpg'', [1, 2]), (''-000000001.jpg'', [3])] =
     (Inl StructError, Some (bif_magic @ [0, 0, 0, 0] @ [2, 0, 0, 0])) \<and>
   fst (process_media_part (demo_settings\<lparr>PLEX_BIF_FRAME_INTERVAL := - 1\<rparr>) None None
          demo_env demo_part demo_world) = EncodeFailed StructError \<and>
   dirs (snd (process_media_part (demo_settings\<lparr>PLEX_BIF_FRAME_INTERVAL := - 1\<rparr>) None None
          demo_env demo_part demo_world)) ''/tmp/abc'' = None \<and>
   files (snd (process_media_part (demo_settings\<lparr>PLEX_BIF_FRAME_INTERVAL := - 1\<rparr>) None None
          demo_env demo_part demo_world))
     ''/media/localhost/a/bc.bundle/Contents/Indexes/index-sd.bif'' = None"
proof -
  let ?st = "demo_settings\<lparr>PLEX_BIF_FRAME_INTERVAL := - 1\<rparr>"
  let ?r = "process_media_part ?st None None demo_env demo_part demo_world"
  have g: "generate_bif ?st True [(''0000000000.jpg'', [1, 2]), (''-000000001.jpg'', [3])] =
      (Inl StructError, Some (bif_magic @ [0, 0, 0, 0] @ [2, 0, 0, 0]))"
    by code_simp
  have d: "fst ?r = EncodeFailed StructError" by code_simp
  then have r: "?r = (EncodeFailed StructError, snd ?r)" by (cases ?r) simp
  have h: "part_hash demo_part = Some ''abc''" by (simp add: demo_part_def)
  have p: "tmp_path ?st ''abc'' = ''/tmp/abc''"
    "index_bif ?st ''abc'' = ''/media/localhost/a/bc.bundle/Contents/Indexes/index-sd.bif''"
    by (simp_all add: tmp_path_def index_bif_def demo_settings_def)
  from C8_failed_encoding_leaves_nothing [OF r] h
  have "dirs (snd ?r) (tmp_path ?st ''abc'') = None \<and>
      files (snd ?r) (index_bif ?st ''abc'') = None"
    by simp
  with g d p show ?thesis by simp
qed

end
